theory Spec2Isabelle
  imports Main "HOL-Library.Word"
begin

unbundle bit_operations_syntax

section \<open>Tiny16: memory with MMIO\<close>

text \<open>
  The C++ types \<open>uint8_t\<close>, \<open>uint16_t\<close> and \<open>uint32_t\<close> are words of that width;
  an expression the C++ evaluates in \<open>int\<close> after integral promotion is written on
  32-bit words (two's complement, as on every platform the program builds for).
\<close>

type_synonym u8 = "8 word"
type_synonym u16 = "16 word"
type_synonym u32 = "32 word"

text \<open>
  \<open>struct Memory\<close>. The field \<open>uart\<close> is the sequence of bytes written to \<open>cout\<close>
  by the UART register, oldest first.
\<close>

record Memory =
  mem :: "u16 \<Rightarrow> u8"
  timer :: u16
  timercmp :: u16
  irq_pending :: bool
  uart :: "u8 list"

definition mmio_read :: "Memory \<Rightarrow> u16 \<Rightarrow> u8" where
  "mmio_read m addr =
     (if addr = 0xFF00 then 0
      else if addr = 0xFF01 then 0xFF
      else if addr = 0xFF10 then ucast (timer m AND 0xFF)
      else if addr = 0xFF11 then ucast (drop_bit 8 (timer m) AND 0xFF)
      else if addr = 0xFF12 then ucast (timercmp m AND 0xFF)
      else if addr = 0xFF13 then ucast (drop_bit 8 (timercmp m) AND 0xFF)
      else if addr = 0xFF14 then (if irq_pending m then 1 else 0)
      else 0)"

definition mmio_write :: "Memory \<Rightarrow> u16 \<Rightarrow> u8 \<Rightarrow> Memory" where
  "mmio_write m addr val =
     (if addr = 0xFF00 then m\<lparr>uart := uart m @ [val]\<rparr>
      else if addr = 0xFF10 then m\<lparr>timer := (timer m AND 0xFF00) OR ucast val\<rparr>
      else if addr = 0xFF11 then m\<lparr>timer := (timer m AND 0x00FF) OR push_bit 8 (ucast val)\<rparr>
      else if addr = 0xFF12 then m\<lparr>timercmp := (timercmp m AND 0xFF00) OR ucast val\<rparr>
      else if addr = 0xFF13 then
        m\<lparr>timercmp := (timercmp m AND 0x00FF) OR push_bit 8 (ucast val)\<rparr>
      else if addr = 0xFF14 then (if val = 1 then m\<lparr>irq_pending := False\<rparr> else m)
      else m)"

definition read8 :: "Memory \<Rightarrow> u16 \<Rightarrow> u8" where
  "read8 m addr = (if 0xFF00 \<le> addr then mmio_read m addr else mem m addr)"

text \<open>\<open>addr + 1\<close> is passed to a \<open>uint16_t\<close> parameter, so it wraps at \<open>0xFFFF\<close>.\<close>

definition read16 :: "Memory \<Rightarrow> u16 \<Rightarrow> u16" where
  "read16 m addr =
     (let lo = ucast (read8 m addr) :: u16;
          hi = ucast (read8 m (addr + 1)) :: u16
      in push_bit 8 hi OR lo)"

definition write8 :: "Memory \<Rightarrow> u16 \<Rightarrow> u8 \<Rightarrow> Memory" where
  "write8 m addr val =
     (if 0xFF00 \<le> addr then mmio_write m addr val else m\<lparr>mem := (mem m)(addr := val)\<rparr>)"

definition write16 :: "Memory \<Rightarrow> u16 \<Rightarrow> u16 \<Rightarrow> Memory" where
  "write16 m addr val =
     write8 (write8 m addr (ucast (val AND 0xFF))) (addr + 1) (ucast (drop_bit 8 val AND 0xFF))"

definition tick :: "Memory \<Rightarrow> Memory" where
  "tick m =
     (let m1 = m\<lparr>timer := timer m + 1\<rparr>
      in if 0 < timercmp m1 \<and> timercmp m1 \<le> timer m1 then m1\<lparr>irq_pending := True\<rparr> else m1)"

section \<open>Tiny16: CPU core\<close>

text \<open>
  \<open>struct CPU\<close>. \<open>cpu_mem\<close> is the referenced \<open>Memory\<close>; the register file \<open>R\<close> is
  indexed by the 3-bit register number; \<open>err\<close> is the text written to \<open>cerr\<close>.
\<close>

record CPU =
  cpu_mem :: Memory
  R :: "3 word \<Rightarrow> u16"
  PC :: u16
  Z :: bool
  N :: bool
  C :: bool
  V :: bool
  halted :: bool
  err :: string

definition fetch16 :: "CPU \<Rightarrow> u16 \<times> CPU" where
  "fetch16 s = (read16 (cpu_mem s) (PC s), s\<lparr>PC := PC s + 2\<rparr>)"

definition setZN :: "u16 \<Rightarrow> CPU \<Rightarrow> CPU" where
  "setZN res s = s\<lparr>Z := (res = 0), N := (res AND 0x8000 \<noteq> 0)\<rparr>"

text \<open>
  \<open>add16\<close> and \<open>sub16\<close> return the result (the reference parameter \<open>res\<close>) and the
  CPU with its flags set. In \<open>sub16\<close> the operand of \<open>~\<close> is promoted to \<open>int\<close>
  before it is complemented, so \<open>(uint32_t)(~b)\<close> is the complement of all 32 bits
  of the zero-extended \<open>b\<close>.
\<close>

definition add16 :: "u16 \<Rightarrow> u16 \<Rightarrow> CPU \<Rightarrow> u16 \<times> CPU" where
  "add16 a b s =
     (let w = (ucast a :: u32) + (ucast b :: u32);
          res = ucast w :: u16;
          s1 = s\<lparr>C := (drop_bit 16 w AND 1 \<noteq> 0)\<rparr>;
          s2 = s1\<lparr>V := (drop_bit 15 (NOT ((ucast a :: u32) XOR ucast b) AND
                               ((ucast a :: u32) XOR ucast res)) AND 1 \<noteq> 0)\<rparr>
      in (res, setZN res s2))"

definition sub16 :: "u16 \<Rightarrow> u16 \<Rightarrow> CPU \<Rightarrow> u16 \<times> CPU" where
  "sub16 a b s =
     (let w = (ucast a :: u32) + NOT (ucast b :: u32) + 1;
          res = ucast w :: u16;
          s1 = s\<lparr>C := (drop_bit 16 w AND 1 \<noteq> 0)\<rparr>;
          s2 = s1\<lparr>V := (drop_bit 15 (((ucast a :: u32) XOR ucast b) AND
                               ((ucast a :: u32) XOR ucast res)) AND 1 \<noteq> 0)\<rparr>
      in (res, setZN res s2))"

definition push16 :: "u16 \<Rightarrow> CPU \<Rightarrow> CPU" where
  "push16 v s =
     (let s1 = s\<lparr>R := (R s)(7 := R s 7 - 2)\<rparr>
      in s1\<lparr>cpu_mem := write16 (cpu_mem s1) (R s1 7) v\<rparr>)"

definition pop16 :: "CPU \<Rightarrow> u16 \<times> CPU" where
  "pop16 s =
     (let v = read16 (cpu_mem s) (R s 7)
      in (v, s\<lparr>R := (R s)(7 := R s 7 + 2)\<rparr>))"

text \<open>
  The diagnostic of the \<open>default\<close> case prints the opcode in decimal and \<open>PC - 2\<close>
  in hexadecimal. \<open>PC - 2\<close> is evaluated in \<open>int\<close>, and the stream prints a negative
  \<open>int\<close> in hexadecimal as its 32-bit two's complement.
\<close>

definition digit_char :: "nat \<Rightarrow> char" where
  "digit_char d = (''0123456789abcdef'') ! d"

fun show_dec :: "nat \<Rightarrow> string" where
  "show_dec n = (if n < 10 then [digit_char n] else show_dec (n div 10) @ [digit_char (n mod 10)])"

fun show_hex :: "nat \<Rightarrow> string" where
  "show_hex n = (if n < 16 then [digit_char n] else show_hex (n div 16) @ [digit_char (n mod 16)])"

declare show_dec.simps [simp del] show_hex.simps [simp del]

definition unknown_opcode_msg :: "nat \<Rightarrow> u16 \<Rightarrow> string" where
  "unknown_opcode_msg opcode pc =
     ''Unknown opcode: '' @ show_dec opcode @ '' at PC=0x'' @
     show_hex (nat ((int (unat pc) - 2) mod 2 ^ 32)) @ [CHR 0x0A]"

text \<open>
  The sign extension of the 5-bit displacement of the short LD/ST forms:
  \<open>int8_t simm5 = (int8_t)(insn & 0x1F); if (simm5 & 0x10) simm5 |= ~0x1F;\<close>
  and its use as \<open>(uint16_t)(base + (int16_t)simm5)\<close>.
\<close>

definition simm5_addr :: "u16 \<Rightarrow> u16 \<Rightarrow> u16" where
  "simm5_addr base insn =
     (let i5 = ucast (insn AND 0x1F) :: u8;
          simm5 = (if i5 AND 0x10 \<noteq> 0 then i5 OR NOT 0x1F else i5)
      in base + (scast simm5 :: u16))"

text \<open>The result of a load or a logic operation: \<open>R[rd] = v; setZN(R[rd]); C = V = 0;\<close>\<close>

definition load_reg :: "3 word \<Rightarrow> u16 \<Rightarrow> CPU \<Rightarrow> CPU" where
  "load_reg rd v s = (setZN v (s\<lparr>R := (R s)(rd := v)\<rparr>))\<lparr>C := False, V := False\<rparr>"

text \<open>
  The \<open>switch\<close> of \<open>CPU::exec\<close>, on the instruction word already fetched (\<open>PC\<close>
  points behind it); \<open>wide\<close> is \<open>fetch16\<close>.
\<close>

definition exec_insn :: "u16 \<Rightarrow> CPU \<Rightarrow> CPU" where
  "exec_insn insn s =
     (let opcode = unat (drop_bit 11 insn AND 0x1F);
          rd = ucast (drop_bit 8 insn AND 0x07) :: 3 word;
          rs1 = ucast (drop_bit 5 insn AND 0x07) :: 3 word;
          imm3 = ucast (insn AND 0x07) :: u8;
          imm8 = ucast (insn AND 0xFF) :: u8;
          simm8 = scast imm8 :: u16
      in
      if opcode = 0x00 then s
      else if opcode = 0x01 then s\<lparr>halted := True\<rparr>
      else if opcode = 0x02 then (let (w, s1) = fetch16 s in load_reg rd w s1)
      else if opcode = 0x03 then load_reg rd (R s rs1) s
      else if opcode = 0x04 then
        (let (r, s1) = add16 (R s rd) (R s rs1) s in s1\<lparr>R := (R s1)(rd := r)\<rparr>)
      else if opcode = 0x05 then
        (let (r, s1) = sub16 (R s rd) (R s rs1) s in s1\<lparr>R := (R s1)(rd := r)\<rparr>)
      else if opcode = 0x06 then load_reg rd (R s rd AND R s rs1) s
      else if opcode = 0x07 then load_reg rd (R s rd OR R s rs1) s
      else if opcode = 0x08 then load_reg rd (R s rd XOR R s rs1) s
      else if opcode = 0x09 then load_reg rd (NOT (R s rd)) s
      else if opcode = 0x0A then
        (let sh = unat (imm3 AND 7);
             s1 = (if sh \<noteq> 0
                   then s\<lparr>C := (drop_bit (16 - sh) (R s rd) AND 1 \<noteq> 0),
                          R := (R s)(rd := push_bit sh (R s rd))\<rparr>
                   else s\<lparr>C := False\<rparr>)
         in (setZN (R s1 rd) s1)\<lparr>V := False\<rparr>)
      else if opcode = 0x0B then
        (let sh = unat (imm3 AND 7);
             s1 = (if sh \<noteq> 0
                   then s\<lparr>C := (drop_bit (sh - 1) (R s rd) AND 1 \<noteq> 0),
                          R := (R s)(rd := drop_bit sh (R s rd))\<rparr>
                   else s\<lparr>C := False\<rparr>)
         in (setZN (R s1 rd) s1)\<lparr>V := False\<rparr>)
      else if opcode = 0x0C then
        (let (r, s1) = add16 (R s rd) simm8 s in s1\<lparr>R := (R s1)(rd := r)\<rparr>)
      else if opcode = 0x0D then snd (sub16 (R s rd) simm8 s)
      else if opcode = 0x0E then snd (sub16 (R s rd) (R s rs1) s)
      else if opcode = 0x0F then
        (let (addr, s1) = fetch16 s in load_reg rd (read16 (cpu_mem s1) addr) s1)
      else if opcode = 0x10 then
        (let (addr, s1) = fetch16 s in s1\<lparr>cpu_mem := write16 (cpu_mem s1) addr (R s1 rs1)\<rparr>)
      else if opcode = 0x11 then
        (let (addr, s1) = fetch16 s in load_reg rd (ucast (read8 (cpu_mem s1) addr)) s1)
      else if opcode = 0x12 then
        (let (addr, s1) = fetch16 s
         in s1\<lparr>cpu_mem := write8 (cpu_mem s1) addr (ucast (R s1 rs1 AND 0xFF))\<rparr>)
      else if opcode = 0x13 then
        load_reg rd (read16 (cpu_mem s) (simm5_addr (R s rs1) insn)) s
      else if opcode = 0x14 then
        s\<lparr>cpu_mem := write16 (cpu_mem s) (simm5_addr (R s rd) insn) (R s rs1)\<rparr>
      else if opcode = 0x15 then (let (a, s1) = fetch16 s in s1\<lparr>PC := a\<rparr>)
      else if opcode = 0x16 then (let (a, s1) = fetch16 s in if Z s1 then s1\<lparr>PC := a\<rparr> else s1)
      else if opcode = 0x17 then (let (a, s1) = fetch16 s in if \<not> Z s1 then s1\<lparr>PC := a\<rparr> else s1)
      else if opcode = 0x18 then (let (a, s1) = fetch16 s in if C s1 then s1\<lparr>PC := a\<rparr> else s1)
      else if opcode = 0x19 then (let (a, s1) = fetch16 s in if N s1 then s1\<lparr>PC := a\<rparr> else s1)
      else if opcode = 0x1A then
        (let (a, s1) = fetch16 s; s2 = push16 (PC s1) s1 in s2\<lparr>PC := a\<rparr>)
      else if opcode = 0x1B then (let (v, s1) = pop16 s in s1\<lparr>PC := v\<rparr>)
      else if opcode = 0x1C then
        (let (a, s1) = fetch16 s
         in if 0xFF00 \<le> a then load_reg rd (ucast (read8 (cpu_mem s1) a)) s1
            else load_reg rd (read16 (cpu_mem s1) a) s1)
      else if opcode = 0x1D then
        (let (a, s1) = fetch16 s
         in if 0xFF00 \<le> a
            then s1\<lparr>cpu_mem := write8 (cpu_mem s1) a (ucast (R s1 rs1 AND 0xFF))\<rparr>
            else s1\<lparr>cpu_mem := write16 (cpu_mem s1) a (R s1 rs1)\<rparr>)
      else s\<lparr>err := err s @ unknown_opcode_msg opcode (PC s), halted := True\<rparr>)"

text \<open>\<open>CPU::exec\<close>: nothing when halted; else fetch, dispatch, and one \<open>tick\<close>.\<close>

definition exec :: "CPU \<Rightarrow> CPU" where
  "exec s =
     (if halted s then s
      else let (insn, s1) = fetch16 s;
               s2 = exec_insn insn s1
           in s2\<lparr>cpu_mem := tick (cpu_mem s2)\<rparr>)"

text \<open>\<open>n\<close> calls of \<open>exec\<close>, as the driver's loop makes them.\<close>

fun exec_n :: "nat \<Rightarrow> CPU \<Rightarrow> CPU" where
  "exec_n 0 s = s"
| "exec_n (Suc n) s = exec_n n (exec s)"

text \<open>A fresh \<open>Memory\<close> and a fresh \<open>CPU\<close> on it, as the constructors leave them.\<close>

definition fresh_Memory :: Memory where
  "fresh_Memory = \<lparr>mem = (\<lambda>_. 0), timer = 0, timercmp = 0, irq_pending = False, uart = []\<rparr>"

definition fresh_CPU :: "Memory \<Rightarrow> CPU" where
  "fresh_CPU m = \<lparr>cpu_mem = m, R = (\<lambda>_. 0)(7 := 0x7FFC), PC = 0, Z = False, N = False,
                  C = False, V = False, halted = False, err = []\<rparr>"

subsection \<open>Runs of the CPU\<close>

text \<open>The opcode field of the instruction word at \<open>PC\<close>.\<close>

abbreviation opcode_at :: "CPU \<Rightarrow> nat" where
  "opcode_at s \<equiv> unat (drop_bit 11 (read16 (cpu_mem s) (PC s)) AND 0x1F)"

text \<open>The part of \<open>exec\<close> before the call of \<open>tick\<close>: fetch and dispatch.\<close>

definition dispatch :: "CPU \<Rightarrow> CPU" where
  "dispatch s = (let (insn, s1) = fetch16 s in exec_insn insn s1)"

text \<open>
  The instruction at \<open>PC\<close> leaves the timer (respectively all three device registers)
  as it finds them. Instructions that store to \<open>0xFF10..0xFF14\<close> do not.
\<close>

definition timer_untouched :: "CPU \<Rightarrow> bool" where
  "timer_untouched s \<longleftrightarrow> timer (cpu_mem (dispatch s)) = timer (cpu_mem s)"

definition device_untouched :: "CPU \<Rightarrow> bool" where
  "device_untouched s \<longleftrightarrow>
     timer (cpu_mem (dispatch s)) = timer (cpu_mem s) \<and>
     timercmp (cpu_mem (dispatch s)) = timercmp (cpu_mem s) \<and>
     irq_pending (cpu_mem (dispatch s)) = irq_pending (cpu_mem s)"

text \<open>
  \<open>retires P n s\<close>: the next \<open>n\<close> calls of \<open>exec\<close> from \<open>s\<close> each retire an
  instruction (the CPU is not halted before the call) and \<open>P\<close> holds before each.
\<close>

fun retires :: "(CPU \<Rightarrow> bool) \<Rightarrow> nat \<Rightarrow> CPU \<Rightarrow> bool" where
  "retires P 0 s = True"
| "retires P (Suc n) s = (\<not> halted s \<and> P s \<and> retires P n (exec s))"

subsection \<open>Concrete machine states\<close>

text \<open>An all-zero memory (every instruction a NOP) with \<open>timercmp = 3\<close>.\<close>

definition nop_state :: CPU where
  "nop_state = fresh_CPU (fresh_Memory\<lparr>timercmp := 3\<rparr>)"

text \<open>\<open>STB r7, [0xFF10]\<close> at address 0: the bytes \<open>E0 90 10 FF\<close>.\<close>

definition stb_timer_state :: CPU where
  "stb_timer_state =
     fresh_CPU (fresh_Memory\<lparr>mem := (\<lambda>_. 0)(0 := 0xE0, 1 := 0x90, 2 := 0x10, 3 := 0xFF)\<rparr>)"

text \<open>\<open>CALL 0x0010\<close> at address 0 (bytes \<open>00 D0 10 00\<close>) and \<open>RET\<close> at \<open>0x0010\<close> (\<open>00 D8\<close>).\<close>

definition call_ret_Memory :: Memory where
  "call_ret_Memory =
     fresh_Memory\<lparr>mem := (\<lambda>_. 0)(0 := 0x00, 1 := 0xD0, 2 := 0x10, 3 := 0x00,
                                  0x10 := 0x00, 0x11 := 0xD8)\<rparr>"

definition call_ret_state :: CPU where
  "call_ret_state = fresh_CPU call_ret_Memory"

text \<open>The same program with \<open>R7 = 0\<close>, so that the stack word is at \<open>0xFFFE\<close>.\<close>

definition stack_in_mmio_state :: CPU where
  "stack_in_mmio_state = (fresh_CPU call_ret_Memory)\<lparr>R := (\<lambda>_. 0)\<rparr>"

text \<open>\<open>PC = 0xFFFF\<close> and \<open>0xF0\<close> in the byte at address 0.\<close>

definition wrap_fault_state :: CPU where
  "wrap_fault_state =
     (fresh_CPU (fresh_Memory\<lparr>mem := (\<lambda>_. 0)(0 := 0xF0)\<rparr>))\<lparr>PC := 0xFFFF\<rparr>"

section \<open>Tiny16: assembler\<close>

subsection \<open>Characters and strings\<close>

text \<open>
  A \<open>std::string\<close> is a list of characters. The characters that cannot be written
  inside a string literal are given by their codes.
\<close>

abbreviation NUL :: char where "NUL \<equiv> CHR 0x00"
abbreviation TAB :: char where "TAB \<equiv> CHR 0x09"
abbreviation LF :: char where "LF \<equiv> CHR 0x0A"
abbreviation VT :: char where "VT \<equiv> CHR 0x0B"
abbreviation FF :: char where "FF \<equiv> CHR 0x0C"
abbreviation CR :: char where "CR \<equiv> CHR 0x0D"
abbreviation DQUOTE :: char where "DQUOTE \<equiv> CHR 0x22"
abbreviation SQUOTE :: char where "SQUOTE \<equiv> CHR 0x27"
abbreviation BACKSLASH :: char where "BACKSLASH \<equiv> CHR 0x5C"

text \<open>\<open>tolower\<close> in the C locale, and \<open>Assembler::lower\<close>.\<close>

definition lower_char :: "char \<Rightarrow> char" where
  "lower_char c =
     (let n = of_char c :: nat in if 65 \<le> n \<and> n \<le> 90 then char_of (n + 32) else c)"

definition lower :: "string \<Rightarrow> string" where
  "lower s = map lower_char s"

definition is_space :: "char \<Rightarrow> bool" where
  "is_space c \<longleftrightarrow> c = CHR '' '' \<or> c = TAB \<or> c = CR \<or> c = LF"

text \<open>
  \<open>trim\<close>: \<open>a\<close> runs forward over the leading blanks, \<open>b\<close> backward over the trailing
  ones without passing \<open>a\<close>; the result is \<open>s.substr(a, b - a)\<close>.
\<close>

definition trim :: "string \<Rightarrow> string" where
  "trim s = rev (dropWhile is_space (rev (dropWhile is_space s)))"

text \<open>\<open>s.find(c)\<close>: the index of the first \<open>c\<close>, \<open>None\<close> for \<open>npos\<close>.\<close>

fun find_char :: "char \<Rightarrow> string \<Rightarrow> nat option" where
  "find_char c [] = None"
| "find_char c (x # xs) = (if x = c then Some 0 else map_option Suc (find_char c xs))"

text \<open>
  \<open>s.substr(pos, n)\<close> and \<open>s.substr(pos)\<close>, at the call sites where \<open>pos\<close> is at most
  the size.
\<close>

definition substr :: "string \<Rightarrow> nat \<Rightarrow> nat \<Rightarrow> string" where
  "substr s pos n = take n (drop pos s)"

definition substr_from :: "string \<Rightarrow> nat \<Rightarrow> string" where
  "substr_from s pos = drop pos s"

text \<open>\<open>low.rfind(p, 0) == 0\<close>: \<open>p\<close> is a prefix of \<open>low\<close>.\<close>

definition starts_with :: "string \<Rightarrow> string \<Rightarrow> bool" where
  "starts_with p s \<longleftrightarrow> take (length p) s = p"

text \<open>
  \<open>splitComma\<close>: one step of the loop over the characters, on the state
  \<open>(out, cur, par, inStr)\<close>, and the final flush of \<open>cur\<close>.
\<close>

definition splitComma_step ::
  "string list \<times> string \<times> int \<times> bool \<Rightarrow> char \<Rightarrow> string list \<times> string \<times> int \<times> bool" where
  "splitComma_step st c =
     (case st of (out, cur, par, inStr) \<Rightarrow>
        let inStr1 = (if c = DQUOTE then \<not> inStr else inStr);
            par1 = (if \<not> inStr1 \<and> c = CHR ''['' then par + 1 else par);
            par2 = (if \<not> inStr1 \<and> c = CHR '']'' then par1 - 1 else par1)
        in if \<not> inStr1 \<and> par2 = 0 \<and> c = CHR '','' then (out @ [trim cur], [], par2, inStr1)
           else (out, cur @ [c], par2, inStr1))"

definition splitComma :: "string \<Rightarrow> string list" where
  "splitComma s =
     (case foldl splitComma_step ([], [], 0, False) s of
        (out, cur, par, inStr) \<Rightarrow> if cur \<noteq> [] then out @ [trim cur] else out)"

subsection \<open>Numbers and registers\<close>

text \<open>
  \<open>strtol\<close> on the C string of a \<open>std::string\<close> (it ends at the first NUL), for base
  10 or 16, with \<open>long\<close> of 64 bits: leading white space, an optional sign, for base
  16 an optional \<open>0x\<close> that is followed by a hexadecimal digit, then the digits. The
  result is the value, clamped to the range of \<open>long\<close>, and the text at \<open>*end\<close>; with
  no digit at all the value is 0 and \<open>end\<close> is the start of the string.
\<close>

definition is_cspace :: "char \<Rightarrow> bool" where
  "is_cspace c \<longleftrightarrow> c = CHR '' '' \<or> c = TAB \<or> c = LF \<or> c = VT \<or> c = FF \<or> c = CR"

definition digit_val :: "char \<Rightarrow> nat" where
  "digit_val c =
     (let n = of_char c :: nat
      in if 48 \<le> n \<and> n \<le> 57 then n - 48
         else if 97 \<le> n \<and> n \<le> 122 then n - 87
         else if 65 \<le> n \<and> n \<le> 90 then n - 55
         else 36)"

definition is_digit :: "nat \<Rightarrow> char \<Rightarrow> bool" where
  "is_digit base c \<longleftrightarrow> digit_val c < base"

definition has_hex_prefix :: "string \<Rightarrow> bool" where
  "has_hex_prefix s =
     (case s of
        z # x # d # _ \<Rightarrow> z = CHR ''0'' \<and> (x = CHR ''x'' \<or> x = CHR ''X'') \<and> is_digit 16 d
      | _ \<Rightarrow> False)"

definition strtol :: "string \<Rightarrow> nat \<Rightarrow> int \<times> string" where
  "strtol s base =
     (let cs = takeWhile (\<lambda>c. c \<noteq> NUL) s;
          s1 = dropWhile is_cspace cs;
          neg = (s1 \<noteq> [] \<and> hd s1 = CHR ''-'');
          s2 = (if s1 \<noteq> [] \<and> (hd s1 = CHR ''-'' \<or> hd s1 = CHR ''+'') then tl s1 else s1);
          s3 = (if base = 16 \<and> has_hex_prefix s2 then drop 2 s2 else s2);
          ds = takeWhile (is_digit base) s3;
          rest = dropWhile (is_digit base) s3;
          mag = foldl (\<lambda>acc c. acc * int base + int (digit_val c)) 0 ds;
          val = (if neg then - mag else mag)
      in if ds = [] then (0, cs)
         else (max (- (2 ^ 63)) (min (2 ^ 63 - 1) val), rest))"

text \<open>
  \<open>parse_int\<close>: \<open>Some v\<close> when it returns true, \<open>v\<close> being the \<open>int\<close> it stores (the
  \<open>long\<close> cut to 32 bits); \<open>None\<close> when it returns false and leaves \<open>v\<close> alone.
\<close>

definition parse_int :: "string \<Rightarrow> u32 option" where
  "parse_int s =
     (let t = (if s \<noteq> [] \<and> hd s = CHR ''#'' then tl s else s)
      in if 3 \<le> length t \<and> hd t = SQUOTE \<and> last t = SQUOTE \<and> length t = 3
           then Some (of_nat (of_char (t ! 1)))
         else if 3 \<le> length t \<and> hd t = SQUOTE \<and> last t = SQUOTE \<and>
                 length t = 4 \<and> t ! 1 = BACKSLASH
           then (if t ! 2 = CHR ''n'' then Some 10
                 else if t ! 2 = CHR ''t'' then Some 9
                 else if t ! 2 = CHR ''0'' then Some 0
                 else Some (of_nat (of_char (t ! 2))))
         else
           let base = (if 2 < length t \<and> t ! 0 = CHR ''0'' \<and>
                          (t ! 1 = CHR ''x'' \<or> t ! 1 = CHR ''X'') then 16 else 10 :: nat)
           in case strtol t base of (L, rest) \<Rightarrow>
                if rest = [] then Some (word_of_int L) else None)"

text \<open>\<open>parse_reg\<close>: \<open>Some r\<close> when it returns true.\<close>

definition parse_reg :: "string \<Rightarrow> u16 option" where
  "parse_reg s =
     (let t = lower s
      in if length t < 2 \<or> hd t \<noteq> CHR ''r'' then None
         else case strtol (tl t) 10 of (v, rest) \<Rightarrow>
                if rest \<noteq> [] then None
                else if v < 0 \<or> 7 < v then None
                else Some (word_of_int v))"

text \<open>
  What the assembler throws is a \<open>runtime_error\<close> with its message. \<open>Undefined\<close>
  stands for the places where the C++ has no defined behaviour: an element of
  \<open>parts\<close> or of \<open>bytes\<close> read past the end, and the value of a variable that was
  never set.
\<close>

datatype error = RuntimeError string | Undefined

definition bindE :: "error + 'a \<Rightarrow> ('a \<Rightarrow> error + 'b) \<Rightarrow> error + 'b" where
  "bindE m f = (case m of Inl e \<Rightarrow> Inl e | Inr x \<Rightarrow> f x)"

definition reg_of :: "string \<Rightarrow> error + u16" where
  "reg_of tok =
     (case parse_reg tok of
        None \<Rightarrow> Inl (RuntimeError (''bad register: '' @ tok))
      | Some r \<Rightarrow> Inr r)"

text \<open>
  \<open>parse_addr_token\<close>: \<open>None\<close> when it returns false; \<open>Some (Inl addr)\<close> when it
  stores an address and clears \<open>symb\<close>; \<open>Some (Inr symb)\<close> when it stores a symbol.
\<close>

definition parse_addr_token :: "string \<Rightarrow> (u16 + string) option" where
  "parse_addr_token tok =
     (let t = trim tok
      in if length t < 3 \<or> hd t \<noteq> CHR ''['' \<or> last t \<noteq> CHR '']'' then None
         else let inner = trim (substr t 1 (length t - 2))
              in case parse_int inner of
                   Some v \<Rightarrow> Some (Inl (ucast v))
                 | None \<Rightarrow> Some (Inr (lower inner)))"


subsection \<open>The assembler's state and its output\<close>

text \<open>
  \<open>struct Assembler\<close>: the symbol table, the output bytes, the fixups (offset and
  symbol), the origin and the source lines.
\<close>

record Assembler =
  sym :: "string \<rightharpoonup> u16"
  bytes :: "u8 list"
  fixups :: "(nat \<times> string) list"
  org :: u16
  lines :: "string list"

text \<open>
  \<open>getline\<close> in a loop: the text is cut at every line feed; a line feed at the very
  end starts no further line.
\<close>

fun split_lines :: "string \<Rightarrow> string list" where
  "split_lines [] = []"
| "split_lines (c # cs) =
     (if c = LF then [] # split_lines cs
      else case split_lines cs of [] \<Rightarrow> [[c]] | l # ls \<Rightarrow> (c # l) # ls)"

definition load :: "string \<Rightarrow> Assembler" where
  "load text = \<lparr>sym = Map.empty, bytes = [], fixups = [], org = 0, lines = split_lines text\<rparr>"

text \<open>
  The emitters change \<open>bytes\<close> and \<open>fixups\<close> only; they are written on that pair. The
  encoders compute the instruction word in \<open>int\<close> and cut it to 16 bits.
\<close>

type_synonym image = "u8 list \<times> (nat \<times> string) list"

definition emit8 :: "u8 \<Rightarrow> image \<Rightarrow> image" where
  "emit8 b st = (case st of (bs, fx) \<Rightarrow> (bs @ [b], fx))"

definition emit16 :: "u16 \<Rightarrow> image \<Rightarrow> image" where
  "emit16 w st = emit8 (ucast (drop_bit 8 w AND 0xFF)) (emit8 (ucast (w AND 0xFF)) st)"

definition emit_fixup16 :: "string \<Rightarrow> image \<Rightarrow> image" where
  "emit_fixup16 name st = (case st of (bs, fx) \<Rightarrow> emit16 0 (bs, fx @ [(length bs, name)]))"

definition emitRRI :: "u8 \<Rightarrow> u8 \<Rightarrow> u8 \<Rightarrow> u8 \<Rightarrow> image \<Rightarrow> image" where
  "emitRRI opc rd rs1 imm3 =
     emit16 (ucast (push_bit 11 (ucast opc :: u32) OR push_bit 8 (ucast rd) OR
                    push_bit 5 (ucast rs1) OR (ucast imm3 AND 0x07)))"

definition emitR :: "u8 \<Rightarrow> u8 \<Rightarrow> u8 \<Rightarrow> image \<Rightarrow> image" where
  "emitR opc rd rs1 =
     emit16 (ucast (push_bit 11 (ucast opc :: u32) OR push_bit 8 (ucast rd) OR
                    push_bit 5 (ucast rs1)))"

definition emitRI8 :: "u8 \<Rightarrow> u8 \<Rightarrow> u32 \<Rightarrow> image \<Rightarrow> image" where
  "emitRI8 opc rd imm8 =
     emit16 (ucast (push_bit 11 (ucast opc :: u32) OR push_bit 8 (ucast rd) OR
                    ucast (ucast imm8 :: u8)))"

definition emitW :: "u8 \<Rightarrow> u8 \<Rightarrow> image \<Rightarrow> image" where
  "emitW opc rd = emit16 (ucast (push_bit 11 (ucast opc :: u32) OR push_bit 8 (ucast rd)))"

text \<open>\<open>if (parse_int(tok, v)) emit16((uint16_t)v); else emit_fixup16(name);\<close>\<close>

definition emit_value :: "string \<Rightarrow> string \<Rightarrow> image \<Rightarrow> image" where
  "emit_value tok name st =
     (case parse_int tok of Some v \<Rightarrow> emit16 (ucast v) st | None \<Rightarrow> emit_fixup16 name st)"

text \<open>
  The operand word of an absolute address: \<open>parse_addr_token\<close>, then the address or
  a fixup, else the error \<open>msg\<close>. \<open>symb\<close> is empty exactly when an address was stored.
\<close>

definition emit_addr :: "string \<Rightarrow> string \<Rightarrow> image \<Rightarrow> error + image" where
  "emit_addr tok msg st =
     (case parse_addr_token tok of
        None \<Rightarrow> Inl (RuntimeError msg)
      | Some (Inl addr) \<Rightarrow> Inr (emit16 addr st)
      | Some (Inr symb) \<Rightarrow> if symb = [] then Inl Undefined else Inr (emit_fixup16 symb st))"

text \<open>\<open>parts[i]\<close>, which the C++ reads without a check in some branches.\<close>

definition part :: "string list \<Rightarrow> nat \<Rightarrow> error + string" where
  "part parts i = (if i < length parts then Inr (parts ! i) else Inl Undefined)"

text \<open>
  The operand \<open>[rb+imm]\<close> of the short LD/ST: the base register and \<open>v & 0x1F\<close>. For a
  token of one character \<open>size() - 2\<close> wraps, and \<open>substr\<close> yields the empty rest of
  the token either way.
\<close>

definition short_operand :: "string \<Rightarrow> string \<Rightarrow> string \<Rightarrow> error + (u16 \<times> u32)" where
  "short_operand addrTok msg_form msg_imm =
     (let inside = trim (substr addrTok 1 (length addrTok - 2))
      in case find_char (CHR ''+'') inside of
           None \<Rightarrow> Inl (RuntimeError msg_form)
         | Some pl \<Rightarrow>
             bindE (reg_of (trim (substr inside 0 pl))) (\<lambda>rb.
               case parse_int (trim (substr_from inside (pl + 1))) of
                 None \<Rightarrow> Inl (RuntimeError msg_imm)
               | Some v \<Rightarrow> Inr (rb, v AND 0x1F)))"

text \<open>The two-register instructions that read \<open>parts[0]\<close> and \<open>parts[1]\<close> unchecked.\<close>

definition emit_rr :: "u8 \<Rightarrow> string list \<Rightarrow> image \<Rightarrow> error + image" where
  "emit_rr opc parts st =
     bindE (part parts 0) (\<lambda>p0. bindE (reg_of p0) (\<lambda>rd.
     bindE (part parts 1) (\<lambda>p1. bindE (reg_of p1) (\<lambda>rs.
       Inr (emitR opc (ucast rd) (ucast rs) st)))))"

definition emit_shift :: "u8 \<Rightarrow> string \<Rightarrow> string list \<Rightarrow> image \<Rightarrow> error + image" where
  "emit_shift opc msg parts st =
     bindE (part parts 0) (\<lambda>p0. bindE (reg_of p0) (\<lambda>rd.
     bindE (part parts 1) (\<lambda>p1.
       case parse_int p1 of
         None \<Rightarrow> Inl (RuntimeError msg)
       | Some s \<Rightarrow> if sint s < 0 \<or> 7 < sint s then Inl (RuntimeError msg)
                  else Inr (emitRRI opc (ucast rd) 0 (ucast s) st))))"

definition emit_ri8 :: "u8 \<Rightarrow> string \<Rightarrow> string list \<Rightarrow> image \<Rightarrow> error + image" where
  "emit_ri8 opc msg parts st =
     bindE (part parts 0) (\<lambda>p0. bindE (reg_of p0) (\<lambda>rd.
     bindE (part parts 1) (\<lambda>p1.
       case parse_int p1 of
         None \<Rightarrow> Inl (RuntimeError msg)
       | Some v \<Rightarrow> Inr (emitRI8 opc (ucast rd) v st))))"

definition emit_jump :: "u8 \<Rightarrow> string list \<Rightarrow> image \<Rightarrow> error + image" where
  "emit_jump opc parts st =
     (let st1 = emitW opc 0 st
      in bindE (part parts 0) (\<lambda>p0. Inr (emit_value p0 (lower p0) st1)))"

text \<open>An instruction with a register and an absolute address, the register in \<open>rd\<close>.\<close>

definition emit_reg_addr :: "u8 \<Rightarrow> string \<Rightarrow> string list \<Rightarrow> image \<Rightarrow> error + image" where
  "emit_reg_addr opc msg parts st =
     (if length parts \<noteq> 2 then Inl (RuntimeError msg)
      else bindE (reg_of (parts ! 0)) (\<lambda>r.
             emit_addr (parts ! 1) msg (emitW opc (ucast r) st)))"

text \<open>The chain of tests on the mnemonic \<open>M\<close> in \<open>pass2\<close>.\<close>

definition emit_insn :: "string \<Rightarrow> string list \<Rightarrow> image \<Rightarrow> error + image" where
  "emit_insn M parts st =
     (if M = ''nop'' then Inr (emit16 0x0000 st)
      else if M = ''halt'' then Inr (emit16 0x0800 st)
      else if M = ''ldi'' then
        (if length parts \<noteq> 2 then Inl (RuntimeError ''LDI rd, imm16'')
         else bindE (reg_of (parts ! 0)) (\<lambda>rd.
                Inr (emit_value (parts ! 1) (lower (parts ! 1)) (emitW 0x02 (ucast rd) st))))
      else if M = ''mov'' then
        (if length parts \<noteq> 2 then Inl (RuntimeError ''MOV rd, rs'')
         else emit_rr 0x03 parts st)
      else if M = ''add'' then emit_rr 0x04 parts st
      else if M = ''sub'' then emit_rr 0x05 parts st
      else if M = ''and'' then emit_rr 0x06 parts st
      else if M = ''or'' then emit_rr 0x07 parts st
      else if M = ''xor'' then emit_rr 0x08 parts st
      else if M = ''not'' then
        (if length parts \<noteq> 1 then Inl (RuntimeError ''NOT rd'')
         else bindE (reg_of (parts ! 0)) (\<lambda>rd. Inr (emitR 0x09 (ucast rd) 0 st)))
      else if M = ''shl'' then emit_shift 0x0A ''SHL rd, 0..7'' parts st
      else if M = ''shr'' then emit_shift 0x0B ''SHR rd, 0..7'' parts st
      else if M = ''addi'' then emit_ri8 0x0C ''ADDI rd, imm8'' parts st
      else if M = ''cmpi'' then emit_ri8 0x0D ''CMPI rd, imm8'' parts st
      else if M = ''cmp'' then emit_rr 0x0E parts st
      else if M = ''ld'' then
        (if length parts \<noteq> 2 then Inl (RuntimeError ''LD rd, [..]'')
         else bindE (reg_of (parts ! 0)) (\<lambda>rd.
           if find_char (CHR ''+'') (parts ! 1) \<noteq> None then
             bindE (short_operand (parts ! 1) ''LD short expects [rb+imm]''
                      ''LD short imm must be int'') (\<lambda>(rb, imm5).
               Inr (emit16 (ucast (push_bit 11 (0x13 :: u32) OR push_bit 8 (ucast rd) OR
                                   push_bit 5 (ucast rb) OR imm5)) st))
           else emit_addr (parts ! 1) ''LD rd, [addr16]'' (emitW 0x0F (ucast rd) st)))
      else if M = ''st'' then
        (if length parts \<noteq> 2 then Inl (RuntimeError ''ST rs, [..]'')
         else bindE (reg_of (parts ! 0)) (\<lambda>rs.
           if find_char (CHR ''+'') (parts ! 1) \<noteq> None then
             bindE (short_operand (parts ! 1) ''ST short expects [rb+imm]''
                      ''ST short imm must be int'') (\<lambda>(rb, imm5).
               Inr (emit16 (ucast (push_bit 11 (0x14 :: u32) OR push_bit 8 (ucast rb) OR
                                   push_bit 5 (ucast rs) OR imm5)) st))
           else emit_addr (parts ! 1) ''ST rs, [addr16]'' (emitW 0x10 (ucast rs) st)))
      else if M = ''ldb'' then emit_reg_addr 0x11 ''LDB rd, [addr16]'' parts st
      else if M = ''stb'' then emit_reg_addr 0x12 ''STB rs, [addr16]'' parts st
      else if M = ''jmp'' then emit_jump 0x15 parts st
      else if M = ''jz'' then emit_jump 0x16 parts st
      else if M = ''jnz'' then emit_jump 0x17 parts st
      else if M = ''jc'' then emit_jump 0x18 parts st
      else if M = ''jn'' then emit_jump 0x19 parts st
      else if M = ''call'' then emit_jump 0x1A parts st
      else if M = ''ret'' then Inr (emitW 0x1B 0 st)
      else if M = ''in'' then emit_reg_addr 0x1C ''IN rd, [addr16]'' parts st
      else if M = ''out'' then
        (if length parts \<noteq> 2 then Inl (RuntimeError ''OUT rs, [addr16]'')
         else bindE (reg_of (parts ! 0)) (\<lambda>rs.
                emit_addr (parts ! 1) ''OUT rs, [addr16]''
                  (emit16 (ucast (push_bit 11 (0x1D :: u32) OR push_bit 5 (ucast rs))) st)))
      else Inl (RuntimeError (''Unknown mnemonic: '' @ M)))"


subsection \<open>The two passes\<close>

text \<open>The comment of a line starts at the first semicolon found by \<open>s.find(';')\<close>.\<close>

definition strip_comment :: "string \<Rightarrow> string" where
  "strip_comment s = (case find_char (CHR '';'') s of None \<Rightarrow> s | Some sc \<Rightarrow> substr s 0 sc)"

text \<open>
  The body of a \<open>.stringz\<close>: the loop over \<open>rest[1..]\<close> with the flag \<open>esc\<close>, up to the
  closing quote or the end of the line.
\<close>

fun stringz_scan :: "bool \<Rightarrow> string \<Rightarrow> string \<Rightarrow> string" where
  "stringz_scan esc body [] = body"
| "stringz_scan esc body (c # cs) =
     (if esc then
        stringz_scan False
          (body @ [if c = CHR ''n'' then LF else if c = CHR ''t'' then TAB
                   else if c = CHR ''0'' then NUL else c]) cs
      else if c = BACKSLASH then stringz_scan True body cs
      else if c = DQUOTE then body
      else stringz_scan False (body @ [c]) cs)"

definition stringz_body :: "string \<Rightarrow> string" where
  "stringz_body rest = stringz_scan False [] (drop 1 rest)"

text \<open>
  \<open>ts >> mnemRaw; getline(ts, rest);\<close> on a stream over \<open>s\<close>: the first word after
  leading white space, and what follows it up to a line feed.
\<close>

definition split_mnem :: "string \<Rightarrow> string \<times> string" where
  "split_mnem s =
     (let s1 = dropWhile is_cspace s
      in (takeWhile (\<lambda>c. \<not> is_cspace c) s1,
          takeWhile (\<lambda>c. c \<noteq> LF) (dropWhile (\<lambda>c. \<not> is_cspace c) s1)))"

definition needWide :: "string \<Rightarrow> bool" where
  "needWide m \<longleftrightarrow>
     m \<in> set [''ldi'', ''ldb'', ''stb'', ''jmp'', ''jz'', ''jnz'', ''jc'', ''jn'',
              ''call'', ''in'', ''out'']"

text \<open>
  A loop over the lines whose body may throw: the first error ends it. The loop
  state of pass 1 is the symbol table and the virtual \<open>pc\<close>; that of pass 2 is the
  image and \<open>pc\<close>.
\<close>

fun run_lines :: "('s \<Rightarrow> string \<Rightarrow> error + 's) \<Rightarrow> 's \<Rightarrow> string list \<Rightarrow> error + 's" where
  "run_lines f st [] = Inr st"
| "run_lines f st (l # ls) = (case f st l of Inl e \<Rightarrow> Inl e | Inr st' \<Rightarrow> run_lines f st' ls)"

text \<open>Pass 1 on a statement (a line without comment and label).\<close>

definition pass1_stmt ::
  "(string \<rightharpoonup> u16) \<times> u16 \<Rightarrow> string \<Rightarrow> error + (string \<rightharpoonup> u16) \<times> u16" where
  "pass1_stmt st s =
     (case st of (sy, pc) \<Rightarrow>
      let low = lower s in
      if starts_with ''.org'' low then
        (case parse_int (trim (substr_from s 4)) of
           None \<Rightarrow> Inl (RuntimeError ''.org expects value'')
         | Some v \<Rightarrow> Inr (sy, ucast v))
      else if starts_with ''.word'' low then
        (let parts = splitComma (trim (substr_from s 5))
         in Inr (sy, foldl (\<lambda>p _. p + 2) pc parts))
      else if starts_with ''.stringz'' low then
        (let rest = trim (substr_from s 8)
         in if rest = [] \<or> hd rest \<noteq> DQUOTE then Inl (RuntimeError ''.stringz expects string'')
            else Inr (sy, pc + of_nat (length (stringz_body rest) + 1)))
      else
        (case split_mnem s of (mnemRaw, rest0) \<Rightarrow>
         let mnem = lower mnemRaw; rest = trim rest0 in
         if mnem = ''ld'' \<or> mnem = ''st'' then
           (let parts = splitComma rest
            in if length parts = 2 \<and> find_char (CHR ''+'') (parts ! 1) \<noteq> None
               then Inr (sy, pc + 2)
               else Inr (sy, pc + 4))
         else Inr (sy, if needWide mnem then pc + 2 + 2 else pc + 2)))"

definition pass1_line ::
  "(string \<rightharpoonup> u16) \<times> u16 \<Rightarrow> string \<Rightarrow> error + (string \<rightharpoonup> u16) \<times> u16" where
  "pass1_line st raw =
     (case st of (sy, pc) \<Rightarrow>
      let s = trim (strip_comment raw) in
      if s = [] then Inr (sy, pc)
      else if last s = CHR '':'' then
        Inr (sy(lower (trim (substr s 0 (length s - 1))) \<mapsto> pc), pc)
      else
        (case find_char (CHR '':'') s of
           None \<Rightarrow> pass1_stmt (sy, pc) s
         | Some colon \<Rightarrow>
             let sy1 = sy(lower (trim (substr s 0 colon)) \<mapsto> pc);
                 s1 = trim (substr_from s (colon + 1))
             in if s1 = [] then Inr (sy1, pc) else pass1_stmt (sy1, pc) s1))"

text \<open>
  Pass 2 on a statement. \<open>.org\<close> pads the image with zeros while its size is below
  \<open>(size_t)(pc - org)\<close>, a difference of \<open>int\<close>s converted to 64 bits. Pass 2 does not
  look at the result of \<open>parse_int\<close> there; where it is false, \<open>v\<close> was never set.
\<close>

definition pad_target :: "u16 \<Rightarrow> u16 \<Rightarrow> nat" where
  "pad_target pc origin =
     (if origin \<le> pc then unat pc - unat origin else 2 ^ 64 - (unat origin - unat pc))"

definition pad_to :: "nat \<Rightarrow> image \<Rightarrow> image" where
  "pad_to n st = (case st of (bs, fx) \<Rightarrow> (bs @ replicate (n - length bs) 0, fx))"

definition pass2_stmt :: "u16 \<Rightarrow> image \<times> u16 \<Rightarrow> string \<Rightarrow> error + image \<times> u16" where
  "pass2_stmt origin st s =
     (case st of (im, pc) \<Rightarrow>
      let low = lower s in
      if starts_with ''.org'' low then
        (case parse_int (trim (substr_from s 4)) of
           None \<Rightarrow> Inl Undefined
         | Some v \<Rightarrow> Inr (pad_to (pad_target (ucast v) origin) im, ucast v))
      else if starts_with ''.word'' low then
        (let parts = splitComma (trim (substr_from s 5))
         in Inr (foldl (\<lambda>i p. emit_value p (lower (trim p)) i) im parts, pc))
      else if starts_with ''.stringz'' low then
        (let rest = trim (substr_from s 8);
             body = stringz_body rest
         in Inr (emit8 0 (foldl (\<lambda>i c. emit8 (of_char c) i) im body), pc))
      else
        (case split_mnem s of (mnemRaw, rest0) \<Rightarrow>
         let M = lower mnemRaw; rest = trim rest0; parts = splitComma rest
         in bindE (emit_insn M parts im) (\<lambda>im'. Inr (im', pc))))"

definition pass2_line :: "u16 \<Rightarrow> image \<times> u16 \<Rightarrow> string \<Rightarrow> error + image \<times> u16" where
  "pass2_line origin st raw =
     (let s = trim (strip_comment raw) in
      if s = [] then Inr st
      else if last s = CHR '':'' then Inr st
      else
        (case find_char (CHR '':'') s of
           None \<Rightarrow> pass2_stmt origin st s
         | Some colon \<Rightarrow>
             let s1 = trim (substr_from s (colon + 1))
             in if s1 = [] then Inr st else pass2_stmt origin st s1))"

text \<open>
  The fixups are resolved in order; the first symbol that is not in the table
  throws. The offsets are those of bytes that were emitted.
\<close>

fun resolve :: "(string \<rightharpoonup> u16) \<Rightarrow> (nat \<times> string) list \<Rightarrow> u8 list \<Rightarrow> error + u8 list" where
  "resolve sy [] bs = Inr bs"
| "resolve sy ((off, name) # fx) bs =
     (case sy name of
        None \<Rightarrow> Inl (RuntimeError (''undefined label: '' @ name))
      | Some a \<Rightarrow>
          if off + 1 < length bs
          then resolve sy fx (bs[off := ucast (a AND 0xFF), off + 1 := ucast (drop_bit 8 a AND 0xFF)])
          else Inl Undefined)"

text \<open>
  \<open>pass1_loop\<close> and \<open>pass2_loop\<close> are the loops over the lines with their local
  \<open>pc\<close>; \<open>pass1\<close> and \<open>pass2\<close> are the member functions, on the whole state.
\<close>

definition pass1_loop :: "Assembler \<Rightarrow> error + (string \<rightharpoonup> u16) \<times> u16" where
  "pass1_loop a = run_lines pass1_line (sym a, org a) (lines a)"

definition pass1 :: "Assembler \<Rightarrow> error + Assembler" where
  "pass1 a = bindE (pass1_loop a) (\<lambda>(sy, pc). Inr (a\<lparr>sym := sy\<rparr>))"

definition pass2_loop :: "Assembler \<Rightarrow> error + image \<times> u16" where
  "pass2_loop a = run_lines (pass2_line (org a)) (([], fixups a), org a) (lines a)"

definition pass2 :: "Assembler \<Rightarrow> error + Assembler" where
  "pass2 a =
     bindE (pass2_loop a) (\<lambda>((bs, fx), pc).
       bindE (resolve (sym a) fx bs) (\<lambda>bs'. Inr (a\<lparr>bytes := bs', fixups := fx\<rparr>)))"

text \<open>
  The driver's \<open>A.load(text); A.pass1(); A.pass2();\<close>. The binary is \<open>bytes\<close> of the
  result; an error leaves none.
\<close>

definition assemble :: "string \<Rightarrow> error + Assembler" where
  "assemble text = bindE (pass1 (load text)) pass2"


subsection \<open>Notions used in the properties of the assembler\<close>

text \<open>The number of bytes of an image.\<close>

definition image_size :: "image \<Rightarrow> nat" where
  "image_size im = length (fst im)"

text \<open>
  \<open>fixups_from lo fx n\<close>: the offsets of the fixups \<open>fx\<close> start at \<open>lo\<close> or later, each
  is at least two behind the one before, and the last two-byte slot ends within \<open>n\<close>
  bytes.
\<close>

fun fixups_from :: "nat \<Rightarrow> (nat \<times> string) list \<Rightarrow> nat \<Rightarrow> bool" where
  "fixups_from lo [] n = (lo \<le> n)"
| "fixups_from lo ((off, name) # fx) n = (lo \<le> off \<and> fixups_from (off + 2) fx n)"

definition image_ok :: "image \<Rightarrow> bool" where
  "image_ok im = fixups_from 0 (snd im) (length (fst im))"

text \<open>
  \<open>extends im im'\<close>: \<open>im'\<close> has at least as many bytes as \<open>im\<close>, the fixups of \<open>im\<close>
  and possibly more behind them, and is well formed if \<open>im\<close> is.
\<close>

definition extends :: "image \<Rightarrow> image \<Rightarrow> bool" where
  "extends im im' \<longleftrightarrow>
     length (fst im) \<le> length (fst im') \<and>
     take (length (snd im)) (snd im') = snd im \<and> length (snd im) \<le> length (snd im') \<and>
     (image_ok im \<longrightarrow> image_ok im')"

text \<open>
  A line that is nothing but a \<open>.org\<close> directive (no label), and the value it gives:
  the test the two passes make before they treat a statement as \<open>.org\<close>.
\<close>

definition org_directive :: "string \<Rightarrow> u32 option" where
  "org_directive raw =
     (let s = trim (strip_comment raw)
      in if s = [] then None
         else if last s = CHR '':'' then None
         else if find_char (CHR '':'') s \<noteq> None then None
         else if starts_with ''.org'' (lower s) then parse_int (trim (substr_from s 4))
         else None)"


text \<open>
  The virtual \<open>pc\<close> of pass 1 never steps back from one line to the next (as long
  as pass 1 accepts the lines).
\<close>

fun pc_nondecreasing :: "(string \<rightharpoonup> u16) \<times> u16 \<Rightarrow> string list \<Rightarrow> bool" where
  "pc_nondecreasing st [] = True"
| "pc_nondecreasing st (l # ls) =
     (case pass1_line st l of
        Inl e \<Rightarrow> True
      | Inr st' \<Rightarrow> unat (snd st) \<le> unat (snd st') \<and> pc_nondecreasing st' ls)"




text \<open>What is saved of an assembly: the binary and the symbol table, or the error.\<close>

definition outcome :: "error + Assembler \<Rightarrow> error + u8 list \<times> (string \<rightharpoonup> u16)" where
  "outcome r = (case r of Inl e \<Rightarrow> Inl e | Inr a \<Rightarrow> Inr (bytes a, sym a))"


subsection \<open>Concrete sources\<close>

text \<open>A \<open>.stringz\<close> whose string holds a semicolon.\<close>

definition stringz_semicolon_text :: string where
  "stringz_semicolon_text = ''.stringz '' @ [DQUOTE] @ ''a;b'' @ [DQUOTE]"

text \<open>A \<open>.org\<close> that steps back behind bytes already emitted.\<close>

definition backward_org_text :: string where
  "backward_org_text = ''nop'' @ [LF] @ ''.org 0'' @ [LF] @ ''x: nop''"

text \<open>Three fixups, all of them for labels of the source.\<close>

definition fixup_text :: string where
  "fixup_text =
     ''start: ldi r0, buf ; load the address'' @ [LF] @
     ''  jmp start'' @ [LF] @
     ''buf: .word 7, start''"




text \<open>
  Two \<open>.org\<close> in a row, the second with a label, and the second alone; and the same
  with a second value beyond 16 bits.
\<close>

definition org_then_labelled_org_text :: string where
  "org_then_labelled_org_text = ''.org 2'' @ [LF] @ ''y: .org 4''"

definition labelled_org_text :: string where
  "labelled_org_text = ''y: .org 4''"

definition org_then_wide_org_text :: string where
  "org_then_wide_org_text = ''.org 4'' @ [LF] @ ''.org 65538''"

definition wide_org_text :: string where
  "wide_org_text = ''.org 65538''"

text \<open>Two \<open>.org\<close> in a row between a label and an instruction, and the second alone.\<close>

definition org_twice_text :: string where
  "org_twice_text = ''x:'' @ [LF] @ ''.org 2'' @ [LF] @ ''.org 4'' @ [LF] @ ''y: nop''"

definition org_once_text :: string where
  "org_once_text = ''x:'' @ [LF] @ ''.org 4'' @ [LF] @ ''y: nop''"


section \<open>Flag arithmetic\<close>

text \<open>
  The carry that \<open>sub16\<close> leaves, for all operands: bit 16 of the 32-bit value
  \<open>a + ~b + 1\<close>, where \<open>~b\<close> is the complement of the 32-bit \<open>b\<close>, is set exactly when
  \<open>a < b\<close>, that is, when the subtraction borrows.
\<close>

lemma unat_ucast_16_32: "unat (ucast (a :: u16) :: u32) = unat a"
proof -
  have "unat a < 2 ^ 32"
    using unsigned_less [of a, where 'a = nat] by simp
  then show ?thesis
    by (simp add: unsigned_ucast_eq take_bit_nat_eq_self)
qed

lemma sub16_sum:
  fixes a b :: u16
  shows "unat ((ucast a :: u32) + NOT (ucast b :: u32) + 1) =
         (if b \<le> a then unat a - unat b else 4294967296 + unat a - unat b)"
proof -
  have n: "(ucast a :: u32) + NOT (ucast b :: u32) + 1 = ucast a - ucast b"
    by (simp add: not_eq_complement)
  note ua = unat_ucast_16_32 [of a] and ub = unat_ucast_16_32 [of b]
  show ?thesis
  proof (cases "b \<le> a")
    case True
    then have "unat b \<le> unat a" by (simp add: word_le_nat_alt)
    then have "unat ((ucast a :: u32) - ucast b) = unat a - unat b"
      by (simp add: unat_sub_if' ua ub)
    with True show ?thesis by (simp only: n) simp
  next
    case False
    then have lt: "unat a < unat b" by (simp add: word_le_nat_alt)
    then have "unat ((ucast a :: u32) - ucast b) = unat a + 2 ^ 32 - unat b"
      by (simp add: unat_sub_if' ua ub)
    with False show ?thesis by (simp only: n) simp
  qed
qed

lemma bit16_of_sum:
  fixes w :: u32
  shows "(drop_bit 16 w AND 1 \<noteq> 0) \<longleftrightarrow> odd (unat w div 65536)"
proof -
  have "(drop_bit 16 w AND 1 \<noteq> 0) \<longleftrightarrow> bit w 16"
    by (simp add: and_one_eq bit_iff_odd_drop_bit mod_2_eq_odd)
  also have "\<dots> \<longleftrightarrow> bit (unat w) 16"
    by (simp add: bit_unsigned_iff)
  also have "\<dots> \<longleftrightarrow> odd (unat w div 65536)"
    by (simp add: bit_iff_odd)
  finally show ?thesis .
qed

lemma sub16_C_is_borrow: "C (snd (sub16 a b s)) \<longleftrightarrow> a < b"
proof -
  have la: "unat a < 65536" and lb: "unat b < 65536"
    using unsigned_less [of a, where 'a = nat] unsigned_less [of b, where 'a = nat] by simp_all
  have "C (snd (sub16 a b s)) \<longleftrightarrow>
        odd (unat ((ucast a :: u32) + NOT (ucast b :: u32) + 1) div 65536)"
    by (simp add: sub16_def setZN_def Let_def bit16_of_sum)
  also have "\<dots> \<longleftrightarrow> a < b"
  proof (cases "b \<le> a")
    case True
    then have "unat a - unat b < 65536" using la by simp
    with True show ?thesis by (simp add: sub16_sum not_less [symmetric])
  next
    case False
    then have lt: "unat a < unat b" by (simp add: word_le_nat_alt)
    define q where "q = 65536 + unat a - unat b"
    have q: "q < 65536" and e: "4294967296 + unat a - unat b = 65535 * 65536 + q"
      using lt lb by (simp_all add: q_def)
    have "(65535 * 65536 + q) div 65536 = 65535"
      using q by simp
    with False e show ?thesis by (simp add: sub16_sum not_le)
  qed
  finally show ?thesis .
qed

text \<open>
  C1. ADD of \<open>0xFFFF\<close> and \<open>0x0001\<close> gives \<open>0x0000\<close> with Z=1, N=0, C=1, V=0, as
  stated. SUB of \<open>0x0001\<close> from \<open>0x8000\<close> gives \<open>0x7FFF\<close> with Z=0, N=0, V=1 as stated,
  but with C=0 where the statement (and the comment \<open>carry = !borrow\<close> in \<open>sub16\<close>)
  has C=1: the complement of \<open>b\<close> is taken after promotion to \<open>int\<close>, so the 32-bit
  sum is \<open>a - b\<close> itself and its bit 16 is the borrow, not its negation.
\<close>

theorem sub16_carry_is_borrow:
  "add16 0xFFFF 0x0001 s = (0x0000, s\<lparr>Z := True, N := False, C := True, V := False\<rparr>) \<and>
   sub16 0x8000 0x0001 s = (0x7FFF, s\<lparr>Z := False, N := False, C := False, V := True\<rparr>)"
  by (simp add: add16_def sub16_def setZN_def Let_def)

section \<open>The CPU: auxiliary facts\<close>

lemma tick_fields:
  "mem (tick m) = mem m"
  "timer (tick m) = timer m + 1"
  "timercmp (tick m) = timercmp m"
  "uart (tick m) = uart m"
  "irq_pending (tick m) = (irq_pending m \<or> (0 < timercmp m \<and> timercmp m \<le> timer m + 1))"
  by (auto simp: tick_def Let_def)

lemma exec_dispatch:
  "exec s = (if halted s then s else (dispatch s)\<lparr>cpu_mem := tick (cpu_mem (dispatch s))\<rparr>)"
  by (simp add: exec_def dispatch_def Let_def split_def)

lemma PC_setZN [simp]: "PC (setZN r s) = PC s"
  by (simp add: setZN_def)

lemma PC_load_reg [simp]: "PC (load_reg rd v s) = PC s"
  by (simp add: load_reg_def)

lemma PC_add16 [simp]: "PC (snd (add16 a b s)) = PC s"
  by (simp add: add16_def Let_def)

lemma PC_sub16 [simp]: "PC (snd (sub16 a b s)) = PC s"
  by (simp add: sub16_def Let_def)

text \<open>
  The dispatch is a chain of tests of the opcode; each lemma below fixes the opcode as
  a natural number first, so that the tests are decided by arithmetic on numerals.
\<close>

lemma exec_insn_unknown:
  assumes "29 < unat (drop_bit 11 insn AND 0x1F)"
  shows "exec_insn insn s =
         s\<lparr>err := err s @ unknown_opcode_msg (unat (drop_bit 11 insn AND 0x1F)) (PC s),
           halted := True\<rparr>"
proof -
  define opc where "opc = unat (drop_bit 11 insn AND 0x1F)"
  have "29 < opc" using assms by (simp add: opc_def)
  then show ?thesis
    unfolding exec_insn_def opc_def [symmetric] Let_def by simp
qed

lemma exec_insn_call:
  assumes "unat (drop_bit 11 insn AND 0x1F) = 0x1A"
  shows "exec_insn insn s = (let (a, s1) = fetch16 s; s2 = push16 (PC s1) s1 in s2\<lparr>PC := a\<rparr>)"
proof -
  define opc where "opc = unat (drop_bit 11 insn AND 0x1F)"
  have "opc = 0x1A" using assms by (simp add: opc_def)
  then show ?thesis
    unfolding exec_insn_def opc_def [symmetric] Let_def by simp
qed

lemma exec_insn_ret:
  assumes "unat (drop_bit 11 insn AND 0x1F) = 0x1B"
  shows "exec_insn insn s = (let (v, s1) = pop16 s in s1\<lparr>PC := v\<rparr>)"
proof -
  define opc where "opc = unat (drop_bit 11 insn AND 0x1F)"
  have "opc = 0x1B" using assms by (simp add: opc_def)
  then show ?thesis
    unfolding exec_insn_def opc_def [symmetric] Let_def by simp
qed

lemma exec_insn_PC_one_word:
  assumes "unat (drop_bit 11 insn AND 0x1F) \<in>
             {0x00, 0x01, 0x03, 0x04, 0x05, 0x06, 0x07, 0x08, 0x09,
              0x0A, 0x0B, 0x0C, 0x0D, 0x0E, 0x13, 0x14}"
  shows "PC (exec_insn insn s) = PC s"
proof -
  define opc where "opc = unat (drop_bit 11 insn AND 0x1F)"
  have "opc \<in> {0x00, 0x01, 0x03, 0x04, 0x05, 0x06, 0x07, 0x08, 0x09,
               0x0A, 0x0B, 0x0C, 0x0D, 0x0E, 0x13, 0x14}"
    using assms by (simp add: opc_def)
  then show ?thesis
    unfolding exec_insn_def opc_def [symmetric] Let_def
    by (elim insertE emptyE; simp add: split_def)
qed

text \<open>Addresses of RAM whose successor is in RAM too.\<close>

lemma ram_addr:
  fixes a :: u16
  assumes "a \<le> 0xFEFE"
  shows "\<not> 0xFF00 \<le> a" and "\<not> 0xFF00 \<le> a + 1" and "a + 1 \<noteq> a"
proof -
  have u: "unat a \<le> 65278" using assms by (simp add: word_le_nat_alt)
  have u1: "unat (a + 1) = unat a + 1" using u by (simp add: unat_word_ariths)
  show "\<not> 0xFF00 \<le> a" using u by (simp add: word_le_nat_alt)
  show "\<not> 0xFF00 \<le> a + 1" using u u1 by (simp add: word_le_nat_alt)
  show "a + 1 \<noteq> a" using u1 by (metis Suc_eq_plus1 n_not_Suc_n)
qed

lemma split_word16:
  fixes v :: u16
  shows "push_bit 8 (ucast (ucast (drop_bit 8 v AND 0xFF) :: u8)) OR
         ucast (ucast (v AND 0xFF) :: u8) = v"
proof -
  have m: "(0xFF :: u16) = mask 8" by (simp add: mask_eq_exp_minus_1)
  show ?thesis unfolding m by (rule bit_word_eqI) (auto simp: bit_simps)
qed

lemma read16_write16_ram: "a \<le> 0xFEFE \<Longrightarrow> read16 (write16 m a v) a = v"
  by (simp add: read16_def write16_def read8_def write8_def ram_addr split_word16)

lemma read16_tick: "a \<le> 0xFEFE \<Longrightarrow> read16 (tick m) a = read16 m a"
  by (simp add: read16_def read8_def ram_addr tick_fields)

lemma read16_FFFE: "read16 m 0xFFFE = 0"
  by (simp add: read16_def read8_def mmio_read_def)

lemma u16_65536 [simp]: "(65536 :: u16) = 0"
  by (simp add: word_unat_eq_iff)

lemma u16_65537 [simp]: "(65537 :: u16) = 1"
  by (simp add: word_unat_eq_iff)

lemma unat_plus2: "unat ((x :: u16) + 2) = (unat x + 2) mod 65536"
  by (simp add: unat_word_ariths)

lemma unat_minus2: "unat ((x :: u16) - 2) = (unat x + 65534) mod 65536"
proof -
  have eq: "x - 2 = x + 0xFFFE" by simp
  have "unat (x + 0xFFFE) = (unat x + unat (0xFFFE :: u16)) mod 2 ^ LENGTH(16)"
    by (rule unat_word_ariths(1))
  then show ?thesis unfolding eq by simp
qed

section \<open>Unknown opcodes\<close>

text \<open>
  An instruction word whose opcode field is \<open>0x1E\<close> or \<open>0x1F\<close> halts the CPU, appends
  the diagnostic to \<open>cerr\<close>, and changes neither the registers nor the memory array;
  only \<open>PC\<close> and the timer move.
\<close>

lemma exec_unknown_opcode:
  assumes "\<not> halted s" and "29 < opcode_at s"
  shows "halted (exec s) \<and> R (exec s) = R s \<and> mem (cpu_mem (exec s)) = mem (cpu_mem s) \<and>
         err (exec s) = err s @ unknown_opcode_msg (opcode_at s) (PC s + 2)"
  using assms by (simp add: exec_def fetch16_def exec_insn_unknown Let_def tick_fields)

lemma unknown_opcode_msg_30_1:
  "unknown_opcode_msg 30 1 = ''Unknown opcode: 30 at PC=0xffffffff'' @ [CHR 0x0A]"
  by (simp add: unknown_opcode_msg_def digit_char_def show_dec.simps show_hex.simps)

lemma wrap_fault_state_fetch: "read16 (cpu_mem wrap_fault_state) (PC wrap_fault_state) = 0xF000"
  by (simp add: wrap_fault_state_def fresh_CPU_def read16_def read8_def mmio_read_def
        fresh_Memory_def)

text \<open>
  For an instruction fetched at \<open>0xFFFD\<close> or below, the diagnostic does name the
  address of the instruction.
\<close>

lemma unknown_opcode_msg_names_PC:
  assumes "pc \<le> 0xFFFD"
  shows "unknown_opcode_msg opc (pc + 2) =
         ''Unknown opcode: '' @ show_dec opc @ '' at PC=0x'' @ show_hex (unat pc) @ [CHR 0x0A]"
proof -
  have u: "unat pc \<le> 65533" using assms by (simp add: word_le_nat_alt)
  then have "unat (pc + 2) = unat pc + 2" by (simp add: unat_word_ariths)
  then have "int (unat (pc + 2)) - 2 = int (unat pc)" by simp
  moreover have "int (unat pc) mod 2 ^ 32 = int (unat pc)"
    using uint_bounded [of pc] by (intro mod_pos_pos_trivial) simp_all
  ultimately have "nat ((int (unat (pc + 2)) - 2) mod 2 ^ 32) = unat pc"
    by (simp only: nat_int)
  then show ?thesis by (simp add: unknown_opcode_msg_def)
qed

text \<open>
  C7. The diagnostic prints \<open>PC - 2\<close>, computed in \<open>int\<close>. For an instruction fetched
  at \<open>0xFFFF\<close> (its high byte is the byte at address 0) \<open>PC\<close> has wrapped to 1 and the
  diagnostic reads \<open>PC=0xffffffff\<close>: it names no 16-bit address. The CPU does halt.
\<close>

theorem unknown_opcode_at_FFFF_misprints_PC:
  "\<not> halted wrap_fault_state \<and> PC wrap_fault_state = 0xFFFF \<and>
   opcode_at wrap_fault_state = 30 \<and>
   halted (exec wrap_fault_state) \<and>
   err (exec wrap_fault_state) = ''Unknown opcode: 30 at PC=0xffffffff'' @ [CHR 0x0A]"
proof -
  have h: "\<not> halted wrap_fault_state" "PC wrap_fault_state = 0xFFFF" "err wrap_fault_state = []"
    by (simp_all add: wrap_fault_state_def fresh_CPU_def)
  have o: "opcode_at wrap_fault_state = 30"
    by (simp add: wrap_fault_state_fetch)
  have p: "PC wrap_fault_state + 2 = 1"
    by (simp add: h)
  from exec_unknown_opcode [of wrap_fault_state] h o
  have "halted (exec wrap_fault_state)"
    and "err (exec wrap_fault_state) = unknown_opcode_msg 30 (PC wrap_fault_state + 2)"
    by simp_all
  then show ?thesis
    using h o by (simp add: p unknown_opcode_msg_30_1)
qed

section \<open>Program counter and stack pointer arithmetic\<close>

text \<open>
  C9. The instruction word read at \<open>0xFFFE\<close> is always 0 (both bytes are unmapped MMIO
  addresses), a NOP, and after it \<open>PC\<close> is \<open>0x0000\<close>. Every one-word instruction other
  than RET leaves \<open>PC\<close> two further modulo \<open>2^16\<close>; \<open>fetch16\<close>, \<open>push16\<close> and
  \<open>pop16\<close> move \<open>PC\<close> and \<open>R7\<close> modulo \<open>2^16\<close>; the second byte of a 16-bit access at
  \<open>0xFFFF\<close> is the byte at address 0. Addresses are 16-bit words, so no access leaves
  \<open>0..0xFFFF\<close>.
\<close>

theorem pc_and_sp_wrap_mod_65536:
  "(\<not> halted s \<and> PC s = 0xFFFE \<longrightarrow> PC (exec s) = 0x0000) \<and>
   (\<not> halted s \<and>
    opcode_at s \<in> {0x00, 0x01, 0x03, 0x04, 0x05, 0x06, 0x07, 0x08, 0x09,
                    0x0A, 0x0B, 0x0C, 0x0D, 0x0E, 0x13, 0x14} \<longrightarrow>
      unat (PC (exec s)) = (unat (PC s) + 2) mod 65536) \<and>
   unat (PC (snd (fetch16 s))) = (unat (PC s) + 2) mod 65536 \<and>
   unat (R (push16 v s) 7) = (unat (R s 7) + 65534) mod 65536 \<and>
   unat (R (snd (pop16 s)) 7) = (unat (R s 7) + 2) mod 65536 \<and>
   read16 m 0xFFFF = push_bit 8 (ucast (read8 m 0x0000)) OR ucast (read8 m 0xFFFF) \<and>
   write16 m 0xFFFF w =
     write8 (write8 m 0xFFFF (ucast (w AND 0xFF))) 0x0000 (ucast (drop_bit 8 w AND 0xFF))"
proof -
  have a: "\<not> halted s \<and> PC s = 0xFFFE \<longrightarrow> PC (exec s) = 0x0000"
    by (simp add: exec_def fetch16_def read16_FFFE exec_insn_PC_one_word Let_def)
  have b: "\<not> halted s \<and>
    opcode_at s \<in> {0x00, 0x01, 0x03, 0x04, 0x05, 0x06, 0x07, 0x08, 0x09,
                    0x0A, 0x0B, 0x0C, 0x0D, 0x0E, 0x13, 0x14} \<longrightarrow>
      unat (PC (exec s)) = (unat (PC s) + 2) mod 65536"
  proof (intro impI, elim conjE)
    assume h: "\<not> halted s"
      and "opcode_at s \<in> {0x00, 0x01, 0x03, 0x04, 0x05, 0x06, 0x07, 0x08, 0x09,
                    0x0A, 0x0B, 0x0C, 0x0D, 0x0E, 0x13, 0x14}"
    then have "PC (exec_insn (read16 (cpu_mem s) (PC s)) (s\<lparr>PC := PC s + 2\<rparr>)) = PC s + 2"
      by (simp only: exec_insn_PC_one_word) simp
    then have "PC (exec s) = PC s + 2"
      using h by (simp add: exec_def fetch16_def Let_def)
    then show "unat (PC (exec s)) = (unat (PC s) + 2) mod 65536"
      by (simp only: unat_plus2)
  qed
  have c: "unat (PC (snd (fetch16 s))) = (unat (PC s) + 2) mod 65536"
    by (simp add: fetch16_def unat_plus2)
  have d: "unat (R (push16 v s) 7) = (unat (R s 7) + 65534) mod 65536"
    by (simp add: push16_def Let_def unat_minus2)
  have e: "unat (R (snd (pop16 s)) 7) = (unat (R s 7) + 2) mod 65536"
    by (simp add: pop16_def Let_def unat_plus2)
  have f: "read16 m 0xFFFF = push_bit 8 (ucast (read8 m 0x0000)) OR ucast (read8 m 0xFFFF)"
    by (simp add: read16_def)
  have g: "write16 m 0xFFFF w =
     write8 (write8 m 0xFFFF (ucast (w AND 0xFF))) 0x0000 (ucast (drop_bit 8 w AND 0xFF))"
    by (simp add: write16_def)
  from a b c d e f g show ?thesis by (intro conjI)
qed


lemma nop_at_FFFE:
  "\<not> halted ((fresh_CPU fresh_Memory)\<lparr>PC := 0xFFFE\<rparr>) \<and>
   PC ((fresh_CPU fresh_Memory)\<lparr>PC := 0xFFFE\<rparr>) = 0xFFFE \<and>
   opcode_at ((fresh_CPU fresh_Memory)\<lparr>PC := 0xFFFE\<rparr>) = 0"
  by (simp add: fresh_CPU_def read16_FFFE)

theorem pc_and_sp_wrap_mod_65536_witness:
  "\<not> halted ((fresh_CPU fresh_Memory)\<lparr>PC := 0xFFFE\<rparr>) \<and>
   PC ((fresh_CPU fresh_Memory)\<lparr>PC := 0xFFFE\<rparr>) = 0xFFFE \<and>
   opcode_at ((fresh_CPU fresh_Memory)\<lparr>PC := 0xFFFE\<rparr>) = 0 \<and>
   PC (exec ((fresh_CPU fresh_Memory)\<lparr>PC := 0xFFFE\<rparr>)) = 0x0000 \<and>
   unat (PC (exec ((fresh_CPU fresh_Memory)\<lparr>PC := 0xFFFE\<rparr>))) = (65534 + 2) mod 65536"
  using pc_and_sp_wrap_mod_65536 [of "(fresh_CPU fresh_Memory)\<lparr>PC := 0xFFFE\<rparr>"] nop_at_FFFE
  by simp

section \<open>The timer\<close>

text \<open>
  Only the two forms of \<open>ST\<close>, \<open>STB\<close>, \<open>CALL\<close> and \<open>OUT\<close> write to the memory or its
  device registers; every other instruction leaves them to \<open>tick\<close>.
\<close>

lemma cpu_mem_setZN: "cpu_mem (setZN r s) = cpu_mem s"
  by (simp add: setZN_def)

lemma cpu_mem_load_reg: "cpu_mem (load_reg rd v s) = cpu_mem s"
  by (simp add: load_reg_def cpu_mem_setZN)

lemma cpu_mem_add16: "cpu_mem (snd (add16 a b s)) = cpu_mem s"
  by (simp add: add16_def Let_def cpu_mem_setZN)

lemma cpu_mem_sub16: "cpu_mem (snd (sub16 a b s)) = cpu_mem s"
  by (simp add: sub16_def Let_def cpu_mem_setZN)

lemma opcode_less_32: "unat (drop_bit 11 (insn :: u16) AND 0x1F) < 32"
proof -
  have "drop_bit 11 insn AND 0x1F \<le> 0x1F" by (rule word_and_le1)
  then have "unat (drop_bit 11 insn AND 0x1F) \<le> unat (0x1F :: u16)"
    by (simp only: word_le_nat_alt)
  then show ?thesis by simp
qed

lemma exec_insn_keeps_memory:
  assumes "unat (drop_bit 11 insn AND 0x1F) \<notin> {0x10, 0x12, 0x14, 0x1A, 0x1D}"
  shows "cpu_mem (exec_insn insn s) = cpu_mem s"
proof -
  define opc where "opc = unat (drop_bit 11 insn AND 0x1F)"
  have "opc < 32" unfolding opc_def by (rule opcode_less_32)
  moreover have "opc \<notin> {0x10, 0x12, 0x14, 0x1A, 0x1D}" using assms by (simp add: opc_def)
  ultimately have "opc \<in> {0x00, 0x01, 0x02, 0x03, 0x04, 0x05, 0x06, 0x07, 0x08, 0x09, 0x0A, 0x0B,
      0x0C, 0x0D, 0x0E, 0x0F, 0x11, 0x13, 0x15, 0x16, 0x17, 0x18, 0x19, 0x1B, 0x1C, 0x1E, 0x1F}"
    by simp arith
  then show ?thesis
    unfolding exec_insn_def opc_def [symmetric] Let_def
    by (elim insertE emptyE;
        simp add: split_def fetch16_def pop16_def Let_def cpu_mem_setZN cpu_mem_load_reg
          cpu_mem_add16 cpu_mem_sub16)
qed

lemma device_untouched_unless_store:
  assumes "opcode_at s \<notin> {0x10, 0x12, 0x14, 0x1A, 0x1D}"
  shows "device_untouched s"
  using assms
  by (simp add: device_untouched_def dispatch_def fetch16_def exec_insn_keeps_memory)

lemma timer_exec_n:
  "retires timer_untouched n s \<Longrightarrow>
   timer (cpu_mem (exec_n n s)) = timer (cpu_mem s) + of_nat n"
proof (induction n arbitrary: s)
  case 0
  then show ?case by simp
next
  case (Suc n)
  then have "timer (cpu_mem (exec s)) = timer (cpu_mem s) + 1"
    by (simp add: exec_dispatch tick_fields timer_untouched_def)
  with Suc show ?case by simp
qed

text \<open>
  While no instruction touches the device registers, the timer has advanced by the
  number of instructions retired, the compare value stands, and the interrupt is
  pending iff it was, or some tick so far has brought the timer to the compare value
  or beyond.
\<close>

lemma device_exec_n:
  "retires device_untouched n s \<Longrightarrow>
   timer (cpu_mem (exec_n n s)) = timer (cpu_mem s) + of_nat n \<and>
   timercmp (cpu_mem (exec_n n s)) = timercmp (cpu_mem s) \<and>
   irq_pending (cpu_mem (exec_n n s)) =
     (irq_pending (cpu_mem s) \<or>
      (0 < timercmp (cpu_mem s) \<and>
       (\<exists>j. 1 \<le> j \<and> j \<le> n \<and> timercmp (cpu_mem s) \<le> timer (cpu_mem s) + of_nat j)))"
proof (induction n arbitrary: s)
  case 0
  then show ?case by auto
next
  case (Suc n)
  let ?K = "timercmp (cpu_mem s)" and ?t = "timer (cpu_mem s)"
  from Suc.prems have step:
    "timer (cpu_mem (exec s)) = ?t + 1"
    "timercmp (cpu_mem (exec s)) = ?K"
    "irq_pending (cpu_mem (exec s)) = (irq_pending (cpu_mem s) \<or> (0 < ?K \<and> ?K \<le> ?t + 1))"
    by (simp_all add: exec_dispatch tick_fields device_untouched_def)
  from Suc.prems have "retires device_untouched n (exec s)" by simp
  note ih = Suc.IH [OF this, unfolded step]
  have ex: "(\<exists>j. 1 \<le> j \<and> j \<le> Suc n \<and> ?K \<le> ?t + of_nat j) \<longleftrightarrow>
            (?K \<le> ?t + 1 \<or> (\<exists>j. 1 \<le> j \<and> j \<le> n \<and> ?K \<le> ?t + 1 + of_nat j))"
  proof
    assume "\<exists>j. 1 \<le> j \<and> j \<le> Suc n \<and> ?K \<le> ?t + of_nat j"
    then obtain j where j: "1 \<le> j" "j \<le> Suc n" "?K \<le> ?t + of_nat j" by blast
    show "?K \<le> ?t + 1 \<or> (\<exists>j. 1 \<le> j \<and> j \<le> n \<and> ?K \<le> ?t + 1 + of_nat j)"
    proof (cases "j = 1")
      case True
      with j show ?thesis by simp
    next
      case False
      with j obtain i where i: "j = Suc i" "1 \<le> i" "i \<le> n" by (cases j) auto
      with j have "?K \<le> ?t + 1 + of_nat i" by (simp add: ac_simps)
      with i show ?thesis by blast
    qed
  next
    assume "?K \<le> ?t + 1 \<or> (\<exists>j. 1 \<le> j \<and> j \<le> n \<and> ?K \<le> ?t + 1 + of_nat j)"
    then show "\<exists>j. 1 \<le> j \<and> j \<le> Suc n \<and> ?K \<le> ?t + of_nat j"
    proof
      assume "?K \<le> ?t + 1"
      then have "1 \<le> (1::nat) \<and> 1 \<le> Suc n \<and> ?K \<le> ?t + of_nat 1" by simp
      then show ?thesis by blast
    next
      assume "\<exists>j. 1 \<le> j \<and> j \<le> n \<and> ?K \<le> ?t + 1 + of_nat j"
      then obtain j where "1 \<le> j" "j \<le> n" "?K \<le> ?t + 1 + of_nat j" by blast
      then have "1 \<le> Suc j \<and> Suc j \<le> Suc n \<and> ?K \<le> ?t + of_nat (Suc j)"
        by (simp add: ac_simps)
      then show ?thesis by blast
    qed
  qed
  show ?case
    using ih ex by (simp add: add.assoc) blast
qed

lemma compare_reached:
  fixes K :: u16
  assumes "0 < K"
  shows "(\<exists>j. 1 \<le> j \<and> j \<le> n \<and> K \<le> of_nat j) \<longleftrightarrow> unat K \<le> n"
proof
  assume "\<exists>j. 1 \<le> j \<and> j \<le> n \<and> K \<le> of_nat j"
  then obtain j where j: "j \<le> n" "K \<le> of_nat j" by blast
  have "unat K \<le> unat (of_nat j :: u16)" using j(2) by (simp add: word_le_nat_alt)
  also have "\<dots> \<le> j" by (simp add: unat_of_nat)
  finally show "unat K \<le> n" using j(1) by simp
next
  assume le: "unat K \<le> n"
  have "1 \<le> unat K" using assms by (simp add: word_less_nat_alt)
  moreover have "K \<le> of_nat (unat K)" by simp
  ultimately show "\<exists>j. 1 \<le> j \<and> j \<le> n \<and> K \<le> of_nat j" using le by blast
qed

text \<open>
  C4, as stated, fails: the timer registers are writable. From a fresh machine,
  \<open>STB r7, [0xFF10]\<close> stores \<open>0xFC\<close> in the low byte of the timer, and after this one
  instruction the timer is \<open>0xFD\<close>, not 1.
\<close>

theorem timer_written_by_program:
  "timer (cpu_mem stb_timer_state) = 0 \<and> \<not> halted stb_timer_state \<and>
   timer (cpu_mem (exec_n 1 stb_timer_state)) = 0xFD \<and>
   timer (cpu_mem (exec_n 1 stb_timer_state)) \<noteq> of_nat 1"
proof -
  have f: "read16 (cpu_mem stb_timer_state) 0 = 0x90E0"
    "read16 (cpu_mem stb_timer_state) 2 = 0xFF10"
    by (simp_all add: stb_timer_state_def fresh_CPU_def fresh_Memory_def read16_def read8_def
          word_le_nat_alt)
  have i: "exec_insn 0x90E0 s =
             (let (addr, s1) = fetch16 s
              in s1\<lparr>cpu_mem := write8 (cpu_mem s1) addr (ucast (R s1 7 AND 0xFF))\<rparr>)" for s
    by (simp add: exec_insn_def Let_def)
  have a: "PC stb_timer_state = 0" "\<not> halted stb_timer_state" "R stb_timer_state 7 = 0x7FFC"
    "timer (cpu_mem stb_timer_state) = 0"
    by (simp_all add: stb_timer_state_def fresh_CPU_def fresh_Memory_def)
  show ?thesis
    by (simp add: a exec_def fetch16_def f i write8_def mmio_write_def tick_fields Let_def)
qed

text \<open>
  C4, amended. From \<open>timer = 0\<close>, over \<open>n\<close> retired instructions none of which writes
  the timer, the timer is \<open>n\<close> modulo \<open>2^16\<close>. If moreover none writes \<open>timercmp\<close> or
  acknowledges the interrupt, and no interrupt was pending at first: with
  \<open>timercmp = K > 0\<close> the interrupt is pending after \<open>n\<close> instructions iff \<open>K \<le> n\<close>, so
  it is raised by the tick of instruction \<open>K\<close>, the first that brings the timer to
  \<open>K\<close>; with \<open>timercmp = 0\<close> it is never raised.
\<close>

theorem timer_counts_retired_instructions:
  assumes "timer (cpu_mem s) = 0"
  shows "(retires timer_untouched n s \<longrightarrow>
            unat (timer (cpu_mem (exec_n n s))) = n mod 65536) \<and>
         (retires device_untouched n s \<and> \<not> irq_pending (cpu_mem s) \<and> 0 < timercmp (cpu_mem s) \<longrightarrow>
            irq_pending (cpu_mem (exec_n n s)) = (unat (timercmp (cpu_mem s)) \<le> n)) \<and>
         (retires device_untouched n s \<and> \<not> irq_pending (cpu_mem s) \<and> timercmp (cpu_mem s) = 0 \<longrightarrow>
            \<not> irq_pending (cpu_mem (exec_n n s)))"
proof (intro conjI impI)
  assume "retires timer_untouched n s"
  then have "timer (cpu_mem (exec_n n s)) = of_nat n"
    using assms by (simp add: timer_exec_n)
  then show "unat (timer (cpu_mem (exec_n n s))) = n mod 65536"
    by (simp add: unat_of_nat)
next
  assume h: "retires device_untouched n s \<and> \<not> irq_pending (cpu_mem s) \<and> 0 < timercmp (cpu_mem s)"
  then have "irq_pending (cpu_mem (exec_n n s)) =
      (\<exists>j. 1 \<le> j \<and> j \<le> n \<and> timercmp (cpu_mem s) \<le> of_nat j)"
    using device_exec_n [of n s] assms by simp
  then show "irq_pending (cpu_mem (exec_n n s)) = (unat (timercmp (cpu_mem s)) \<le> n)"
    using h by (simp only: compare_reached)
next
  assume "retires device_untouched n s \<and> \<not> irq_pending (cpu_mem s) \<and> timercmp (cpu_mem s) = 0"
  then show "\<not> irq_pending (cpu_mem (exec_n n s))"
    using device_exec_n [of n s] by simp
qed

lemma nop_exec:
  assumes "mem (cpu_mem s) = (\<lambda>_. 0)" and "\<not> halted s" and "PC s \<le> 0xFEFE"
  shows "exec s = s\<lparr>PC := PC s + 2, cpu_mem := tick (cpu_mem s)\<rparr>"
    and "dispatch s = s\<lparr>PC := PC s + 2\<rparr>"
proof -
  have "read16 (cpu_mem s) (PC s) = 0"
    using assms by (simp add: read16_def read8_def ram_addr)
  then show "exec s = s\<lparr>PC := PC s + 2, cpu_mem := tick (cpu_mem s)\<rparr>"
    and "dispatch s = s\<lparr>PC := PC s + 2\<rparr>"
    using assms(2) by (simp_all add: exec_def dispatch_def fetch16_def exec_insn_def Let_def)
qed

lemma nop_retires:
  assumes "mem (cpu_mem s) = (\<lambda>_. 0)" and "\<not> halted s" and "PC s \<le> 0xFEFE"
    and "retires device_untouched n (s\<lparr>PC := PC s + 2, cpu_mem := tick (cpu_mem s)\<rparr>)"
  shows "retires device_untouched (Suc n) s"
  using assms by (simp add: device_untouched_def nop_exec)

lemma retires_weaken:
  "retires device_untouched n s \<Longrightarrow> retires timer_untouched n s"
  by (induction n arbitrary: s) (auto simp: device_untouched_def timer_untouched_def)

theorem timer_counts_retired_instructions_witness:
  "timer (cpu_mem nop_state) = 0 \<and> retires timer_untouched 3 nop_state \<and>
   retires device_untouched 3 nop_state \<and> retires device_untouched 2 nop_state \<and>
   \<not> irq_pending (cpu_mem nop_state) \<and> 0 < timercmp (cpu_mem nop_state) \<and>
   unat (timer (cpu_mem (exec_n 3 nop_state))) = 3 mod 65536 \<and>
   \<not> irq_pending (cpu_mem (exec_n 2 nop_state)) \<and>
   irq_pending (cpu_mem (exec_n 3 nop_state))"
proof -
  have s: "mem (cpu_mem nop_state) = (\<lambda>_. 0)" "\<not> halted nop_state"
    "timer (cpu_mem nop_state) = 0" "timercmp (cpu_mem nop_state) = 3"
    "\<not> irq_pending (cpu_mem nop_state)" "PC nop_state = 0"
    by (simp_all add: nop_state_def fresh_CPU_def fresh_Memory_def)
  have r3: "retires device_untouched (Suc (Suc (Suc 0))) nop_state"
    by (intro nop_retires) (simp_all add: s tick_fields word_le_nat_alt)
  then have r2: "retires device_untouched (Suc (Suc 0)) nop_state"
    by (simp add: s)
  have n: "(3::nat) = Suc (Suc (Suc 0))" "(2::nat) = Suc (Suc 0)"
    by simp_all
  have t3: "retires timer_untouched 3 nop_state"
    unfolding n by (rule retires_weaken) (rule r3)
  show ?thesis
    using timer_counts_retired_instructions [OF s(3), of 3]
      timer_counts_retired_instructions [OF s(3), of 2] r3 r2 t3
    unfolding n [symmetric] by (simp add: s)
qed

section \<open>CALL and RET\<close>

lemma call_exec:
  assumes "\<not> halted s" and "opcode_at s = 0x1A" and "R s 7 - 2 \<le> 0xFEFE"
  shows "PC (exec s) = read16 (cpu_mem s) (PC s + 2)"
    and "R (exec s) 7 = R s 7 - 2"
    and "read16 (cpu_mem (exec s)) (R (exec s) 7) = PC s + 4"
  using assms
  by (simp_all add: exec_def fetch16_def exec_insn_call push16_def Let_def
        read16_tick read16_write16_ram)

lemma ret_exec:
  assumes "\<not> halted s" and "opcode_at s = 0x1B"
  shows "PC (exec s) = read16 (cpu_mem s) (R s 7)"
    and "R (exec s) 7 = R s 7 + 2"
  using assms
  by (simp_all add: exec_def fetch16_def exec_insn_ret pop16_def Let_def)

lemma call_ret_Memory_words:
  "read16 call_ret_Memory 0 = 0xD000" "read16 call_ret_Memory 2 = 0x0010"
  "read16 call_ret_Memory 0x10 = 0xD800" "read16 call_ret_Memory 0xFFFE = 0"
  by (simp_all add: call_ret_Memory_def fresh_Memory_def read16_def read8_def mmio_read_def
        word_le_nat_alt)

text \<open>
  C5, as stated, fails when the stack word is not in RAM. With \<open>R7 = 0\<close> the CALL
  writes the return address to \<open>0xFFFE\<close>, an unmapped MMIO address that discards it;
  the RET reads 0 there and returns to address 0, not to address 4 behind the CALL.
\<close>

theorem call_ret_with_stack_in_mmio:
  "\<not> halted stack_in_mmio_state \<and> PC stack_in_mmio_state = 0 \<and>
   opcode_at stack_in_mmio_state = 0x1A \<and>
   PC (exec stack_in_mmio_state) = 0x0010 \<and>
   \<not> halted (exec stack_in_mmio_state) \<and> opcode_at (exec stack_in_mmio_state) = 0x1B \<and>
   PC (exec (exec stack_in_mmio_state)) = 0 \<and>
   PC (exec (exec stack_in_mmio_state)) \<noteq> PC stack_in_mmio_state + 4"
proof -
  let ?s = stack_in_mmio_state
  have a: "\<not> halted ?s" "PC ?s = 0" "cpu_mem ?s = call_ret_Memory" "R ?s 7 = 0"
    by (simp_all add: stack_in_mmio_state_def fresh_CPU_def)
  have o: "opcode_at ?s = 0x1A"
    by (simp add: a call_ret_Memory_words)
  have w: "write16 call_ret_Memory 0xFFFE v = call_ret_Memory" for v
    by (simp add: write16_def write8_def mmio_write_def)
  have sp: "R ?s 7 - 2 = 0xFFFE"
    by (simp add: a word_unat_eq_iff)
  have f: "fetch16 ?s = (0xD000, ?s\<lparr>PC := 2\<rparr>)"
    "fetch16 (?s\<lparr>PC := 2\<rparr>) = (0x0010, ?s\<lparr>PC := 4\<rparr>)"
    by (simp_all add: fetch16_def a call_ret_Memory_words)
  have p: "push16 4 (?s\<lparr>PC := 4\<rparr>) = ?s\<lparr>PC := 4, R := (R ?s)(7 := 0xFFFE)\<rparr>"
    unfolding push16_def Let_def by (simp add: sp) (simp add: a w)
  have e: "exec ?s = ?s\<lparr>PC := 0x0010, R := (R ?s)(7 := 0xFFFE), cpu_mem := tick call_ret_Memory\<rparr>"
    by (simp add: exec_def f exec_insn_call p a)
  have o2: "opcode_at (exec ?s) = 0x1B"
    by (simp add: e read16_tick word_le_nat_alt call_ret_Memory_words)
  have h2: "\<not> halted (exec ?s)"
    by (simp add: e a)
  have "PC (exec (exec ?s)) = 0"
    using ret_exec(1) [OF h2 o2] by (simp add: e read16_FFFE)
  then show ?thesis
    using a o o2 h2 by (simp add: e)
qed

text \<open>
  C5, amended: provided both bytes of the stack word, at \<open>R7 - 2\<close> and \<open>R7 - 1\<close>,
  are RAM (below \<open>0xFF00\<close>). CALL at \<open>s\<close> leaves \<open>R7\<close> two lower, the address behind
  its four bytes in the word at the new \<open>R7\<close>, and the target in \<open>PC\<close>. If \<open>s'\<close> is any
  later state about to execute RET in which \<open>R7\<close> and the word it points to are as
  the CALL left them, then after the RET \<open>PC\<close> is the address behind the CALL and
  \<open>R7\<close> has its value from before the CALL.
\<close>

theorem call_then_ret_returns:
  assumes "\<not> halted s" and "opcode_at s = 0x1A" and "R s 7 - 2 \<le> 0xFEFE"
    and "\<not> halted s'" and "opcode_at s' = 0x1B"
    and "R s' 7 = R (exec s) 7"
    and "read16 (cpu_mem s') (R s' 7) = read16 (cpu_mem (exec s)) (R (exec s) 7)"
  shows "PC (exec s) = read16 (cpu_mem s) (PC s + 2) \<and>
         R (exec s) 7 = R s 7 - 2 \<and>
         read16 (cpu_mem (exec s)) (R (exec s) 7) = PC s + 4 \<and>
         PC (exec s') = PC s + 4 \<and>
         R (exec s') 7 = R s 7"
proof -
  note c = call_exec [OF assms(1-3)]
  note r = ret_exec [OF assms(4,5)]
  have "PC (exec s') = PC s + 4"
    using r(1) assms(7) c(3) by simp
  moreover have "R (exec s') 7 = R s 7"
    using r(2) assms(6) c(2) by simp
  ultimately show ?thesis using c by simp
qed

theorem call_then_ret_returns_witness:
  "\<not> halted call_ret_state \<and> opcode_at call_ret_state = 0x1A \<and>
   R call_ret_state 7 - 2 \<le> 0xFEFE \<and>
   \<not> halted (exec call_ret_state) \<and> opcode_at (exec call_ret_state) = 0x1B \<and>
   PC (exec call_ret_state) = 0x0010 \<and>
   R (exec call_ret_state) 7 = 0x7FFA \<and>
   read16 (cpu_mem (exec call_ret_state)) (R (exec call_ret_state) 7) = 0x0004 \<and>
   PC (exec (exec call_ret_state)) = 0x0004 \<and>
   R (exec (exec call_ret_state)) 7 = 0x7FFC"
proof -
  let ?s = call_ret_state
  have a: "\<not> halted ?s" "PC ?s = 0" "cpu_mem ?s = call_ret_Memory" "R ?s 7 = 0x7FFC"
    by (simp_all add: call_ret_state_def fresh_CPU_def)
  have o: "opcode_at ?s = 0x1A"
    by (simp add: a call_ret_Memory_words)
  have sp: "R ?s 7 - 2 \<le> 0xFEFE"
    by (simp add: a word_le_nat_alt)
  have h2: "\<not> halted (exec ?s)"
    using o by (simp add: exec_def fetch16_def exec_insn_call push16_def a Let_def)
  have m: "mem (cpu_mem (exec ?s)) 0x10 = 0x00 \<and> mem (cpu_mem (exec ?s)) 0x11 = 0xD8"
    using o by (simp add: exec_def fetch16_def exec_insn_call push16_def a Let_def tick_fields
        write16_def write8_def word_le_nat_alt call_ret_Memory_def fresh_Memory_def)
  have pc: "PC (exec ?s) = 0x0010"
    using call_exec(1) [OF a(1) o sp] by (simp add: a call_ret_Memory_words)
  have o2: "opcode_at (exec ?s) = 0x1B"
    using m by (simp add: pc read16_def read8_def word_le_nat_alt)
  show ?thesis
    using call_then_ret_returns [OF a(1) o sp h2 o2 refl refl] a o sp h2 o2 pc
    by auto
qed


section \<open>The assembler: auxiliary facts\<close>

lemma bindE_simps [simp]:
  "bindE (Inl e) f = Inl e"
  "bindE (Inr x) f = f x"
  by (simp_all add: bindE_def)

lemma bindE_Inr_iff:
  "bindE m f = Inr y \<longleftrightarrow> (\<exists>x. m = Inr x \<and> f x = Inr y)"
  by (cases m) simp_all

lemma run_lines_append:
  "run_lines f st (xs @ ys) = bindE (run_lines f st xs) (\<lambda>st'. run_lines f st' ys)"
  by (induction xs arbitrary: st) (simp_all split: sum.splits)



lemma find_char_None_iff: "find_char c s = None \<longleftrightarrow> c \<notin> set s"
  by (induction s) auto

lemma find_char_first: "c \<notin> set a \<Longrightarrow> find_char c (a @ c # b) = Some (length a)"
  by (induction a) auto

lemma find_char_Some:
  "find_char c s = Some i \<Longrightarrow> i < length s \<and> s ! i = c \<and> c \<notin> set (take i s)"
proof (induction s arbitrary: i)
  case Nil
  then show ?case by simp
next
  case (Cons x xs)
  show ?case
  proof (cases "x = c")
    case True
    with Cons.prems show ?thesis by simp
  next
    case False
    with Cons.prems obtain j where j: "find_char c xs = Some j" "i = Suc j"
      by (auto split: if_splits)
    from Cons.IH [OF j(1)] False j(2) show ?thesis by simp
  qed
qed

section \<open>Comments\<close>

lemma strip_comment_none: "CHR '';'' \<notin> set s \<Longrightarrow> strip_comment s = s"
  by (simp add: strip_comment_def find_char_None_iff [THEN iffD2])

lemma strip_comment_first: "CHR '';'' \<notin> set a \<Longrightarrow> strip_comment (a @ CHR '';'' # b) = a"
  by (simp add: strip_comment_def find_char_first substr_def)

lemma strip_comment_no_semicolon: "CHR '';'' \<notin> set (strip_comment s)"
proof (cases "find_char (CHR '';'') s")
  case None
  then have "CHR '';'' \<notin> set s" by (simp add: find_char_None_iff)
  with None show ?thesis by (simp add: strip_comment_def)
next
  case (Some i)
  from find_char_Some [OF Some] show ?thesis
    by (simp add: strip_comment_def Some substr_def)
qed

section \<open>Sizes of what pass 2 emits\<close>

lemma image_size_emit8 [simp]: "image_size (emit8 b im) = image_size im + 1"
  by (cases im) (simp add: emit8_def image_size_def)

lemma image_size_emit16 [simp]: "image_size (emit16 w im) = image_size im + 2"
  by (simp add: emit16_def)

lemma image_size_emit_fixup16 [simp]: "image_size (emit_fixup16 n im) = image_size im + 2"
  by (cases im) (simp add: emit_fixup16_def emit16_def emit8_def image_size_def)

lemma image_size_emitters [simp]:
  "image_size (emitRRI opc rd rs1 imm3 im) = image_size im + 2"
  "image_size (emitR opc rd rs1 im) = image_size im + 2"
  "image_size (emitRI8 opc rd imm8 im) = image_size im + 2"
  "image_size (emitW opc rd im) = image_size im + 2"
  "image_size (emit_value tok name im) = image_size im + 2"
  by (simp_all add: emitRRI_def emitR_def emitRI8_def emitW_def emit_value_def split: option.splits)

lemma image_size_emit_addr:
  "emit_addr tok msg im = Inr im' \<Longrightarrow> image_size im' = image_size im + 2"
  by (auto simp: emit_addr_def split: option.splits sum.splits if_splits)

lemma image_size_emit_rr:
  "emit_rr opc parts im = Inr im' \<Longrightarrow> image_size im' = image_size im + 2"
  by (auto simp: emit_rr_def bindE_Inr_iff)

lemma image_size_emit_shift:
  "emit_shift opc msg parts im = Inr im' \<Longrightarrow> image_size im' = image_size im + 2"
  by (auto simp: emit_shift_def bindE_Inr_iff split: option.splits if_splits)

lemma image_size_emit_ri8:
  "emit_ri8 opc msg parts im = Inr im' \<Longrightarrow> image_size im' = image_size im + 2"
  by (auto simp: emit_ri8_def bindE_Inr_iff split: option.splits)

lemma image_size_emit_jump:
  "emit_jump opc parts im = Inr im' \<Longrightarrow> image_size im' = image_size im + 4"
  by (auto simp: emit_jump_def bindE_Inr_iff Let_def)

lemma image_size_emit_reg_addr:
  "emit_reg_addr opc msg parts im = Inr im' \<Longrightarrow> image_size im' = image_size im + 4"
  by (auto simp: emit_reg_addr_def bindE_Inr_iff split: if_splits dest!: image_size_emit_addr)

text \<open>
  The number of bytes pass 1 reckons for an instruction, by its mnemonic and
  operands.
\<close>

lemma image_size_emit_insn:
  assumes "emit_insn M parts im = Inr im'"
  shows "image_size im' = image_size im +
           (if M = ''ld'' \<or> M = ''st''
            then (if length parts = 2 \<and> find_char (CHR ''+'') (parts ! 1) \<noteq> None then 2 else 4)
            else if needWide M then 4 else 2)"
proof -
  consider
      (one) "M \<in> set [''nop'', ''halt'', ''mov'', ''add'', ''sub'', ''and'', ''or'', ''xor'', ''not'',
                        ''shl'', ''shr'', ''addi'', ''cmpi'', ''cmp'', ''ret'']"
    | (ldst) "M = ''ld'' \<or> M = ''st''"
    | (wide) "M \<in> set [''ldi'', ''ldb'', ''stb'', ''jmp'', ''jz'', ''jnz'', ''jc'', ''jn'',
                         ''call'', ''in'', ''out'']"
    | (other) "M \<notin> set [''nop'', ''halt'', ''ldi'', ''mov'', ''add'', ''sub'', ''and'', ''or'', ''xor'',
                           ''not'', ''shl'', ''shr'', ''addi'', ''cmpi'', ''cmp'', ''ld'', ''st'', ''ldb'',
                           ''stb'', ''jmp'', ''jz'', ''jnz'', ''jc'', ''jn'', ''call'', ''ret'', ''in'',
                           ''out'']"
    by auto
  then show ?thesis
  proof cases
    case one
    then have "image_size im' = image_size im + 2"
      using assms
      by (auto simp: emit_insn_def bindE_Inr_iff split: if_splits
            dest: image_size_emit_rr image_size_emit_shift image_size_emit_ri8)
    moreover from one have "\<not> (M = ''ld'' \<or> M = ''st'')" and "\<not> needWide M"
      by (auto simp: needWide_def)
    ultimately show ?thesis by simp
  next
    case ldst
    then show ?thesis
      using assms
      by (auto simp: emit_insn_def bindE_Inr_iff split: if_splits
            dest: image_size_emit_addr)
  next
    case wide
    then have "image_size im' = image_size im + 4"
      using assms
      by (auto simp: emit_insn_def bindE_Inr_iff split: if_splits
            dest: image_size_emit_addr image_size_emit_jump image_size_emit_reg_addr)
    moreover from wide have "\<not> (M = ''ld'' \<or> M = ''st'')" and "needWide M"
      by (auto simp: needWide_def)
    ultimately show ?thesis by simp
  next
    case other
    then have "emit_insn M parts im = Inl (RuntimeError (''Unknown mnemonic: '' @ M))"
      by (simp add: emit_insn_def)
    with assms show ?thesis by simp
  qed
qed

lemma foldl_pc_words: "foldl (\<lambda>p _. p + 2) (pc :: u16) xs = pc + of_nat (2 * length xs)"
  by (induction xs arbitrary: pc) (simp_all add: algebra_simps)

lemma image_size_words:
  "image_size (foldl (\<lambda>i p. emit_value p (f p) i) im xs) = image_size im + 2 * length xs"
  by (induction xs arbitrary: im) simp_all

lemma image_size_chars:
  "image_size (foldl (\<lambda>i c. emit8 (g c) i) im xs) = image_size im + length xs"
  by (induction xs arbitrary: im) simp_all

lemma image_size_pad_to: "image_size (pad_to n im) = max n (image_size im)"
  by (cases im) (simp add: pad_to_def image_size_def)

text \<open>
  A statement that both passes accept is either a \<open>.org\<close>, which sets both \<open>pc\<close>s and
  pads the image, or it adds the same number of bytes to the virtual \<open>pc\<close> of pass 1
  and to the image of pass 2.
\<close>

lemma stmt_sizes:
  assumes "pass1_stmt (sy, pc) s = Inr (sy', pc')"
    and "pass2_stmt origin (im, qc) s = Inr (im', qc')"
  shows "sy' = sy \<and>
         ((\<exists>v. pc' = v \<and> qc' = v \<and> im' = pad_to (pad_target v origin) im) \<or>
          (\<exists>k. pc' = pc + of_nat k \<and> image_size im' = image_size im + k \<and> qc' = qc))"
proof (cases "starts_with ''.org'' (lower s)")
  case True
  with assms show ?thesis
    by (auto simp: pass1_stmt_def pass2_stmt_def Let_def split: option.splits)
next
  case org: False
  show ?thesis
  proof (cases "starts_with ''.word'' (lower s)")
    case True
    with org assms have "sy' = sy"
      and "pc' = pc + of_nat (2 * length (splitComma (trim (substr_from s 5))))"
      and "image_size im' = image_size im + 2 * length (splitComma (trim (substr_from s 5)))"
      and "qc' = qc"
      by (auto simp: pass1_stmt_def pass2_stmt_def Let_def foldl_pc_words image_size_words)
    then show ?thesis by blast
  next
    case word: False
    show ?thesis
    proof (cases "starts_with ''.stringz'' (lower s)")
      case True
      with org word assms have "sy' = sy"
        and "pc' = pc + of_nat (length (stringz_body (trim (substr_from s 8))) + 1)"
        and "image_size im' = image_size im + (length (stringz_body (trim (substr_from s 8))) + 1)"
        and "qc' = qc"
        by (auto simp: pass1_stmt_def pass2_stmt_def Let_def image_size_chars split: if_splits)
      then show ?thesis by blast
    next
      case False
      obtain mnemRaw rest0 where sm: "split_mnem s = (mnemRaw, rest0)"
        by (cases "split_mnem s")
      let ?M = "lower mnemRaw" and ?parts = "splitComma (trim rest0)"
      let ?k = "if ?M = ''ld'' \<or> ?M = ''st''
                then (if length ?parts = 2 \<and> find_char (CHR ''+'') (?parts ! 1) \<noteq> None
                      then 2 else 4 :: nat)
                else if needWide ?M then 4 else 2"
      from org word False assms(2) sm obtain e: "emit_insn ?M ?parts im = Inr im'" and q: "qc' = qc"
        by (auto simp: pass2_stmt_def Let_def bindE_Inr_iff)
      from image_size_emit_insn [OF e] have 2: "image_size im' = image_size im + ?k" .
      from org word False assms(1) sm have 1: "sy' = sy \<and> pc' = pc + of_nat ?k"
        by (auto simp: pass1_stmt_def Let_def split: if_splits)
      from 1 2 q show ?thesis by blast
    qed
  qed
qed

lemma line_sizes:
  assumes "pass1_line (sy, pc) l = Inr (sy', pc')"
    and "pass2_line origin (im, qc) l = Inr (im', qc')"
  shows "(\<exists>v. pc' = v \<and> qc' = v \<and> im' = pad_to (pad_target v origin) im) \<or>
         (\<exists>k. pc' = pc + of_nat k \<and> image_size im' = image_size im + k \<and> qc' = qc)"
proof -
  have skip: "\<exists>k. pc = pc + of_nat k \<and> image_size im = image_size im + k \<and> qc = qc"
    by (rule exI [of _ 0]) simp
  let ?s = "trim (strip_comment l)"
  show ?thesis
  proof (cases "?s = [] \<or> last ?s = CHR '':''")
    case True
    with assms have "pc' = pc" "im' = im" "qc' = qc"
      by (auto simp: pass1_line_def pass2_line_def Let_def split: if_splits)
    with skip show ?thesis by simp
  next
    case False
    show ?thesis
    proof (cases "find_char (CHR '':'') ?s")
      case None
      with False assms have "pass1_stmt (sy, pc) ?s = Inr (sy', pc')"
        and "pass2_stmt origin (im, qc) ?s = Inr (im', qc')"
        by (auto simp: pass1_line_def pass2_line_def Let_def)
      from stmt_sizes [OF this] show ?thesis by blast
    next
      case (Some colon)
      let ?s1 = "trim (substr_from ?s (colon + 1))"
      show ?thesis
      proof (cases "?s1 = []")
        case True
        with False Some assms have "pc' = pc" "im' = im" "qc' = qc"
          by (auto simp: pass1_line_def pass2_line_def Let_def)
        with skip show ?thesis by simp
      next
        case s1: False
        with False Some assms obtain sy1 where "pass1_stmt (sy1, pc) ?s1 = Inr (sy', pc')"
          and "pass2_stmt origin (im, qc) ?s1 = Inr (im', qc')"
          by (auto simp: pass1_line_def pass2_line_def Let_def)
        from stmt_sizes [OF this] show ?thesis by blast
      qed
    qed
  qed
qed

section \<open>Two-pass consistency\<close>

lemma pad_target_0 [simp]: "pad_target v 0 = unat v"
  by (simp add: pad_target_def)

lemma loops_sizes_mono:
  assumes "run_lines pass1_line (sy, pc) ls = Inr (sy', pc')"
    and "run_lines (pass2_line origin) (im, qc) ls = Inr (im', qc')"
  shows "image_size im \<le> image_size im'"
  using assms
proof (induction ls arbitrary: sy pc im qc)
  case Nil
  then show ?case by simp
next
  case (Cons l ls)
  from Cons.prems obtain sy1 pc1 im1 qc1
    where 1: "pass1_line (sy, pc) l = Inr (sy1, pc1)"
      and r1: "run_lines pass1_line (sy1, pc1) ls = Inr (sy', pc')"
      and 2: "pass2_line origin (im, qc) l = Inr (im1, qc1)"
      and r2: "run_lines (pass2_line origin) (im1, qc1) ls = Inr (im', qc')"
    by (auto split: sum.splits)
  from line_sizes [OF 1 2] have "image_size im \<le> image_size im1"
    by (auto simp: image_size_pad_to)
  also from Cons.IH [OF r1 r2] have "image_size im1 \<le> image_size im'" .
  finally show ?case .
qed

lemma unat_plus_of_nat:
  fixes pc :: u16
  assumes "unat pc + k < 65536"
  shows "unat (pc + of_nat k) = unat pc + k"
proof -
  have "k < 65536" using assms by simp
  then have "unat (of_nat k :: u16) = k" by (simp add: unat_of_nat)
  then show ?thesis using assms by (simp add: unat_word_ariths)
qed

lemma loops_agree:
  assumes "run_lines pass1_line (sy, pc) ls = Inr (sy', pc')"
    and "run_lines (pass2_line 0) (im, qc) ls = Inr (im', qc')"
    and "pc_nondecreasing (sy, pc) ls"
    and "image_size im' < 65536"
    and "unat pc = image_size im"
  shows "unat pc' = image_size im'"
  using assms
proof (induction ls arbitrary: sy pc im qc)
  case Nil
  then show ?case by simp
next
  case (Cons l ls)
  from Cons.prems(1,2) obtain sy1 pc1 im1 qc1
    where 1: "pass1_line (sy, pc) l = Inr (sy1, pc1)"
      and r1: "run_lines pass1_line (sy1, pc1) ls = Inr (sy', pc')"
      and 2: "pass2_line 0 (im, qc) l = Inr (im1, qc1)"
      and r2: "run_lines (pass2_line 0) (im1, qc1) ls = Inr (im', qc')"
    by (auto split: sum.splits)
  from Cons.prems(3) 1 have up: "unat pc \<le> unat pc1" and nd: "pc_nondecreasing (sy1, pc1) ls"
    by simp_all
  from loops_sizes_mono [OF r1 r2] Cons.prems(4) have small: "image_size im1 < 65536"
    by simp
  from line_sizes [OF 1 2] have "unat pc1 = image_size im1"
  proof (elim disjE exE conjE)
    fix v
    assume "pc1 = v" and "im1 = pad_to (pad_target v 0) im"
    then show ?thesis
      using up Cons.prems(5) by (simp add: image_size_pad_to)
  next
    fix k
    assume k: "pc1 = pc + of_nat k" "image_size im1 = image_size im + k"
    with small Cons.prems(5) have "unat pc + k < 65536" by simp
    from unat_plus_of_nat [OF this] k Cons.prems(5) show ?thesis by simp
  qed
  from Cons.IH [OF r1 r2 nd Cons.prems(4) this] show ?case .
qed

lemma pc_nondecreasing_prefix:
  "pc_nondecreasing st (xs @ ys) \<Longrightarrow> pc_nondecreasing st xs"
  by (induction xs arbitrary: st) (auto split: sum.splits)

lemma resolve_length: "resolve sy fx bs = Inr bs' \<Longrightarrow> length bs' = length bs"
proof (induction fx arbitrary: bs)
  case Nil
  then show ?case by simp
next
  case (Cons f fx)
  obtain off name where f: "f = (off, name)" by (cases f)
  from Cons.prems f obtain a where "sy name = Some a" and "off + 1 < length bs"
    and "resolve sy fx (bs[off := ucast (a AND 0xFF), off + 1 := ucast (drop_bit 8 a AND 0xFF)])
           = Inr bs'"
    by (auto split: option.splits if_splits)
  from Cons.IH [OF this(3)] show ?case by simp
qed

text \<open>
  C2, amended. Let both passes accept the input, let the virtual \<open>pc\<close> of pass 1 never
  step back from one line to the next (no \<open>.org\<close> to a lower address, no wrap past
  \<open>0xFFFF\<close>), and let the image be shorter than \<open>2^16\<close> bytes. Then the \<open>pc\<close> at the end
  of pass 1 is the size of the image plus the origin; and the same holds after every
  initial part of the lines, so that the address pass 1 records for a label is the
  offset (plus the origin) at which pass 2 emits what follows it.
\<close>

theorem two_pass_consistency:
  assumes "org a = 0"
    and "pass1_loop a = Inr (sy, pc1)"
    and "pass2 (a\<lparr>sym := sy\<rparr>) = Inr a2"
    and "pc_nondecreasing (sym a, org a) (lines a)"
    and "length (bytes a2) < 65536"
  shows "pass1 a = Inr (a\<lparr>sym := sy\<rparr>) \<and>
         unat pc1 = length (bytes a2) + unat (org a2) \<and>
         (\<forall>pre post syk pck imk qck.
            lines a = pre @ post \<and>
            run_lines pass1_line (sym a, org a) pre = Inr (syk, pck) \<and>
            run_lines (pass2_line (org a)) (([], fixups a), org a) pre = Inr (imk, qck) \<longrightarrow>
              unat pck = image_size imk + unat (org a))"
proof -
  let ?a1 = "a\<lparr>sym := sy\<rparr>"
  from assms(3) obtain bs fx pc2 bs'
    where l2: "pass2_loop ?a1 = Inr ((bs, fx), pc2)"
      and rs: "resolve sy fx bs = Inr bs'"
      and a2: "a2 = ?a1\<lparr>bytes := bs', fixups := fx\<rparr>"
    by (auto simp: pass2_def bindE_Inr_iff)
  from resolve_length [OF rs] a2 have len: "length (bytes a2) = length bs" by simp
  have r1: "run_lines pass1_line (sym a, 0) (lines a) = Inr (sy, pc1)"
    using assms(1,2) by (simp add: pass1_loop_def)
  have r2: "run_lines (pass2_line 0) (([], fixups a), 0) (lines a) = Inr ((bs, fx), pc2)"
    using assms(1) l2 by (simp add: pass2_loop_def)
  have nd: "pc_nondecreasing (sym a, 0) (lines a)"
    using assms(1,4) by simp
  have small: "image_size (bs, fx) < 65536"
    using assms(5) len by (simp add: image_size_def)
  have "unat pc1 = image_size (bs, fx)"
    by (rule loops_agree [OF r1 r2 nd small]) (simp add: image_size_def)
  then have main: "unat pc1 = length (bytes a2) + unat (org a2)"
    using len a2 assms(1) by (simp add: image_size_def)
  have pre: "unat pck = image_size imk + unat (org a)"
    if split: "lines a = pre @ post"
      and p1: "run_lines pass1_line (sym a, org a) pre = Inr (syk, pck)"
      and p2: "run_lines (pass2_line (org a)) (([], fixups a), org a) pre = Inr (imk, qck)"
    for pre post syk pck imk qck
  proof -
    from r1 split p1 assms(1) have q1: "run_lines pass1_line (syk, pck) post = Inr (sy, pc1)"
      by (simp add: run_lines_append)
    from r2 split p2 assms(1)
    have q2: "run_lines (pass2_line 0) (imk, qck) post = Inr ((bs, fx), pc2)"
      by (simp add: run_lines_append)
    from loops_sizes_mono [OF q1 q2] small have s: "image_size imk < 65536" by simp
    from nd split have n: "pc_nondecreasing (sym a, 0) pre"
      by (simp add: pc_nondecreasing_prefix)
    have "unat pck = image_size imk"
    proof (rule loops_agree [OF _ _ n s])
      show "run_lines pass1_line (sym a, 0) pre = Inr (syk, pck)"
        using p1 assms(1) by simp
      show "run_lines (pass2_line 0) (([], fixups a), 0) pre = Inr (imk, qck)"
        using p2 assms(1) by simp
      show "unat (0 :: u16) = image_size ([], fixups a)"
        by (simp add: image_size_def)
    qed
    then show ?thesis using assms(1) by simp
  qed
  have "pass1 a = Inr ?a1"
    using assms(2) by (simp add: pass1_def)
  with main pre show ?thesis by blast
qed

section \<open>Labels\<close>





section \<open>Evaluating the assembler on concrete lines\<close>

lemmas lex_eval =
  strip_comment_def trim_def is_space_def substr_def substr_from_def starts_with_def
  lower_def lower_char_def char_of_def bit_Suc_0_iff split_mnem_def is_cspace_def
  splitComma_def splitComma_step_def parse_int_def parse_reg_def strtol_def
  has_hex_prefix_def is_digit_def digit_val_def parse_addr_token_def stringz_body_def
  Let_def

lemmas emit_eval =
  emit8_def emit16_def emit_fixup16_def emitRRI_def emitR_def emitRI8_def emitW_def
  emit_value_def emit_addr_def part_def short_operand_def emit_rr_def emit_shift_def
  emit_ri8_def emit_jump_def emit_reg_addr_def reg_of_def pad_to_def pad_target_def

section \<open>Fixups\<close>

lemma fixups_from_mono: "fixups_from lo fx n \<Longrightarrow> n \<le> n' \<Longrightarrow> fixups_from lo fx n'"
  by (induction lo fx n rule: fixups_from.induct) auto

lemma fixups_from_snoc:
  "fixups_from lo fx n \<Longrightarrow> n \<le> off \<Longrightarrow> off + 2 \<le> n' \<Longrightarrow>
   fixups_from lo (fx @ [(off, name)]) n'"
  by (induction lo fx n rule: fixups_from.induct) auto

lemma extends_refl [simp, intro]: "extends im im"
  by (simp add: extends_def)

lemma extends_trans:
  assumes "extends im im1" and "extends im1 im2"
  shows "extends im im2"
proof -
  have "take (length (snd im)) (snd im2) =
        take (length (snd im)) (take (length (snd im1)) (snd im2))"
    using assms(1) by (simp add: extends_def min_def)
  also have "\<dots> = snd im"
    using assms by (simp add: extends_def)
  finally show ?thesis
    using assms by (simp add: extends_def)
qed

lemma extends_emit8: "extends im (emit8 b im)"
  by (cases im) (auto simp: extends_def emit8_def image_ok_def intro: fixups_from_mono)

lemma extends_emit_fixup16: "extends im (emit_fixup16 name im)"
  by (cases im)
    (auto simp: extends_def emit_fixup16_def emit16_def emit8_def image_ok_def
      intro: fixups_from_snoc)


lemma after_emit8 [simp]: "extends im im1 \<Longrightarrow> extends im (emit8 b im1)"
  by (erule extends_trans) (rule extends_emit8)

lemma after_emit16 [simp]: "extends im im1 \<Longrightarrow> extends im (emit16 w im1)"
  by (simp add: emit16_def)

lemma after_emit_fixup16 [simp]: "extends im im1 \<Longrightarrow> extends im (emit_fixup16 name im1)"
  by (erule extends_trans) (rule extends_emit_fixup16)

lemma after_emitters [simp]:
  assumes "extends im im1"
  shows "extends im (emitRRI opc rd rs1 imm3 im1)"
    and "extends im (emitR opc rd rs1 im1)"
    and "extends im (emitRI8 opc rd imm8 im1)"
    and "extends im (emitW opc rd im1)"
    and "extends im (emit_value tok name im1)"
  using assms
  by (auto simp: emitRRI_def emitR_def emitRI8_def emitW_def emit_value_def split: option.splits)























section \<open>The origin\<close>

lemma org_directive_lines:
  assumes "org_directive l = Some v"
  shows "pass1_line (sy, pc) l = Inr (sy, ucast v)"
    and "pass2_line origin (im, qc) l = Inr (pad_to (pad_target (ucast v) origin) im, ucast v)"
  using assms
  by (auto simp: org_directive_def pass1_line_def pass2_line_def pass1_stmt_def pass2_stmt_def
        Let_def split: if_splits)

lemma pad_to_pad_to: "n \<le> m \<Longrightarrow> pad_to m (pad_to n im) = pad_to m im"
proof (cases im)
  case (Pair bs fx)
  assume "n \<le> m"
  then have "(n - length bs) + (m - (length bs + (n - length bs))) = m - length bs"
    by simp
  then have "replicate (n - length bs) (0 :: u8) @ replicate (m - (length bs + (n - length bs))) 0
             = replicate (m - length bs) 0"
    by (simp only: replicate_add [symmetric])
  then show ?thesis using Pair by (simp add: pad_to_def)
qed

lemma run_lines_absorb:
  assumes "\<And>st. bindE (f st lA) (\<lambda>st'. f st' lB) = f st lB"
  shows "run_lines f st (pre @ lA # lB # post) = run_lines f st (pre @ lB # post)"
proof -
  have "run_lines f st' (lA # lB # post) = run_lines f st' (lB # post)" for st'
  proof (cases "f st' lA")
    case (Inl e)
    with assms [of st'] have "f st' lB = Inl e" by simp
    with Inl show ?thesis by simp
  next
    case (Inr x)
    with assms [of st'] have "f x lB = f st' lB" by simp
    with Inr show ?thesis by simp
  qed
  then show ?thesis by (simp add: run_lines_append)
qed

lemma org_absorbed:
  assumes "org a = 0"
    and "org_directive lA = Some vA" and "org_directive lB = Some vB"
    and "(ucast vA :: u16) \<le> ucast vB"
  shows "outcome (bindE (pass1 (a\<lparr>lines := pre @ lA # lB # post\<rparr>)) pass2) =
         outcome (bindE (pass1 (a\<lparr>lines := pre @ lB # post\<rparr>)) pass2)"
proof -
  let ?A = "ucast vA :: u16" and ?B = "ucast vB :: u16"
  let ?L2 = "pre @ lA # lB # post" and ?L1 = "pre @ lB # post"
  from assms(4) have le: "unat ?A \<le> unat ?B" by (simp add: word_le_nat_alt)
  have p1: "run_lines pass1_line st ?L2 = run_lines pass1_line st ?L1" for st
    by (rule run_lines_absorb) (simp add: org_directive_lines [OF assms(2)]
        org_directive_lines [OF assms(3)] split_paired_all)
  have p2: "run_lines (pass2_line 0) st ?L2 = run_lines (pass2_line 0) st ?L1" for st
    by (rule run_lines_absorb) (simp add: org_directive_lines [OF assms(2)]
        org_directive_lines [OF assms(3)] split_paired_all pad_to_pad_to le)
  have l1: "pass1_loop (a\<lparr>lines := ?L2\<rparr>) = pass1_loop (a\<lparr>lines := ?L1\<rparr>)"
    by (simp add: pass1_loop_def p1)
  have l2: "pass2_loop (a\<lparr>lines := ?L2, sym := sy\<rparr>) = pass2_loop (a\<lparr>lines := ?L1, sym := sy\<rparr>)" for sy
    using assms(1) by (simp add: pass2_loop_def p2)
  show ?thesis
  proof (cases "pass1_loop (a\<lparr>lines := ?L1\<rparr>)")
    case (Inl e)
    with l1 show ?thesis by (simp add: pass1_def outcome_def)
  next
    case (Inr r)
    obtain sy pc where r: "r = (sy, pc)" by (cases r)
    show ?thesis
    proof (cases "pass2_loop (a\<lparr>lines := ?L1, sym := sy\<rparr>)")
      case (Inl e)
      with Inr r l1 l2 [of sy] show ?thesis
        by (simp add: pass1_def pass2_def outcome_def)
    next
      case i2: (Inr r2)
      obtain bs2 fx2 pc2 where r2: "r2 = ((bs2, fx2), pc2)" by (cases r2) auto
      from Inr r l1 i2 r2 l2 [of sy] show ?thesis
        by (cases "resolve sy fx2 bs2") (simp_all add: pass1_def pass2_def outcome_def)
    qed
  qed
qed

lemma assemble_lines:
  "assemble src = bindE (pass1 ((load [])\<lparr>lines := lines (load src)\<rparr>)) pass2"
  by (simp add: assemble_def load_def)

text \<open>
  C8, amended. Let two lines in a row be nothing but \<open>.org A\<close> and \<open>.org B\<close> (no label
  on either), with \<open>A \<le> B\<close> for the 16-bit values that the passes keep of them. Then
  the source assembles to the image and the symbols (or to the error) of the source
  without the line \<open>.org A\<close>, from any state of the assembler with origin 0 and so
  for \<open>assemble\<close>: pass 1 is left with \<open>B\<close>, and pass 2 pads with zeros up to offset
  \<open>B\<close> when the image is shorter and adds nothing otherwise.
\<close>

theorem org_twice_is_org_once:
  assumes "org a = 0"
    and "org_directive lA = Some vA" and "org_directive lB = Some vB"
    and "(ucast vA :: u16) \<le> ucast vB"
  shows "outcome (bindE (pass1 (a\<lparr>lines := pre @ [lA, lB] @ post\<rparr>)) pass2) =
         outcome (bindE (pass1 (a\<lparr>lines := pre @ [lB] @ post\<rparr>)) pass2) \<and>
         pass2_line (org a) ((bs, fx), qc) lB =
           Inr ((bs @ replicate (unat (ucast vB :: u16) - length bs) 0, fx), ucast vB) \<and>
         (\<forall>srcAB srcB.
            lines (load srcAB) = pre @ [lA, lB] @ post \<and> lines (load srcB) = pre @ [lB] @ post \<longrightarrow>
              outcome (assemble srcAB) = outcome (assemble srcB))"
proof -
  have 1: "outcome (bindE (pass1 (a\<lparr>lines := pre @ [lA, lB] @ post\<rparr>)) pass2) =
           outcome (bindE (pass1 (a\<lparr>lines := pre @ [lB] @ post\<rparr>)) pass2)"
    using org_absorbed [OF assms, of pre post] by simp
  have 2: "pass2_line (org a) ((bs, fx), qc) lB =
           Inr ((bs @ replicate (unat (ucast vB :: u16) - length bs) 0, fx), ucast vB)"
    using assms(1) by (simp add: org_directive_lines [OF assms(3)] pad_to_def)
  have o: "org (load []) = 0" by (simp add: load_def)
  have 3: "outcome (assemble srcAB) = outcome (assemble srcB)"
    if "lines (load srcAB) = pre @ [lA, lB] @ post \<and> lines (load srcB) = pre @ [lB] @ post"
    for srcAB srcB
    using org_absorbed [OF o assms(2-4), of pre post] that
    by (simp add: assemble_lines)
  from 1 2 3 show ?thesis by blast
qed

section \<open>Offsets and addresses\<close>


section \<open>Comments, on the code\<close>

lemmas pass_eval =
  assemble_def load_def pass1_def pass1_loop_def pass2_def pass2_loop_def pass1_line_def
  pass1_stmt_def pass2_line_def pass2_stmt_def needWide_def emit_insn_def

text \<open>
  C3, as stated, fails: the comment is cut at the first semicolon of the line, and
  quotes are not looked at. Of \<open>.stringz "a;b"\<close> only \<open>.stringz "a\<close> is left, and the
  image is the byte \<open>a\<close> and the final zero.
\<close>

theorem semicolon_in_string_starts_comment:
  "stringz_semicolon_text = ''.stringz '' @ [DQUOTE] @ ''a;b'' @ [DQUOTE] \<and>
   strip_comment stringz_semicolon_text = ''.stringz '' @ [DQUOTE] @ ''a'' \<and>
   outcome (assemble stringz_semicolon_text) = Inr ([0x61, 0x00], Map.empty)"
  by (simp add: stringz_semicolon_text_def outcome_def pass_eval lex_eval emit_eval)

text \<open>
  C3, amended: everything from the first semicolon of a line on is discarded, inside
  a quoted string or not. Both passes treat the line as if it ended before that
  semicolon, and a line without semicolon is taken whole.
\<close>

theorem comment_from_first_semicolon:
  assumes "CHR '';'' \<notin> set before"
  shows "strip_comment (before @ CHR '';'' # after) = before \<and>
         strip_comment before = before \<and>
         pass1_line st1 (before @ CHR '';'' # after) = pass1_line st1 before \<and>
         pass2_line origin st2 (before @ CHR '';'' # after) = pass2_line origin st2 before"
  using assms
  by (simp add: pass1_line_def pass2_line_def strip_comment_first strip_comment_none)

theorem comment_from_first_semicolon_witness:
  "CHR '';'' \<notin> set ''nop '' \<and>
   strip_comment (''nop '' @ CHR '';'' # '' x;y'') = ''nop '' \<and>
   strip_comment ''nop '' = ''nop '' \<and>
   pass1_line (Map.empty, 0) (''nop '' @ CHR '';'' # '' x;y'') = pass1_line (Map.empty, 0) ''nop '' \<and>
   pass2_line 0 (([], []), 0) (''nop '' @ CHR '';'' # '' x;y'') = pass2_line 0 (([], []), 0) ''nop ''"
proof -
  have "CHR '';'' \<notin> set ''nop ''" by simp
  from comment_from_first_semicolon [OF this, of "'' x;y''" "(Map.empty, 0)" 0 "(([], []), 0)"]
  show ?thesis by simp
qed

section \<open>The two passes, on concrete sources\<close>

text \<open>
  C2, as stated, fails: a \<open>.org\<close> to a lower address sets the virtual \<open>pc\<close> of pass 1
  back, while pass 2 keeps what it has emitted. Both passes accept the source; pass 1
  ends with \<open>pc = 2\<close> and the label \<open>x\<close> at 0, the image has 4 bytes and the line of \<open>x\<close>
  is emitted at offset 2.
\<close>

theorem backward_org_breaks_consistency:
  "pass1_loop (load backward_org_text) = Inr (Map.empty(''x'' \<mapsto> 0), 2) \<and>
   outcome (assemble backward_org_text) = Inr ([0, 0, 0, 0], Map.empty(''x'' \<mapsto> 0)) \<and>
   org (load backward_org_text) = 0 \<and>
   unat (2 :: u16) \<noteq> length [0, 0, 0, 0 :: u8] + unat (0 :: u16)"
  by (simp add: backward_org_text_def outcome_def pass_eval lex_eval emit_eval)

lemma fixup_text_pass1:
  "pass1_loop (load fixup_text) = Inr (Map.empty(''start'' \<mapsto> 0, ''buf'' \<mapsto> 8), 12)"
  by (simp add: fixup_text_def pass_eval lex_eval)

lemma fixup_text_pass2_loop:
  "pass2_loop ((load fixup_text)\<lparr>sym := sy\<rparr>) =
     Inr (([0x00, 0x10, 0x00, 0x00, 0x00, 0xA8, 0x00, 0x00, 0x07, 0x00, 0x00, 0x00],
           [(2, ''buf''), (6, ''start''), (10, ''start'')]), 0)"
  by (simp add: fixup_text_def pass_eval lex_eval emit_eval)

lemma fixup_text_pass2:
  "pass2 ((load fixup_text)\<lparr>sym := Map.empty(''start'' \<mapsto> 0, ''buf'' \<mapsto> 8)\<rparr>) =
     Inr ((load fixup_text)
            \<lparr>sym := Map.empty(''start'' \<mapsto> 0, ''buf'' \<mapsto> 8),
             bytes := [0x00, 0x10, 0x08, 0x00, 0x00, 0xA8, 0x00, 0x00, 0x07, 0x00, 0x00, 0x00],
             fixups := [(2, ''buf''), (6, ''start''), (10, ''start'')]\<rparr>)"
  by (simp add: pass2_def fixup_text_pass2_loop)

lemma fixup_text_nondecreasing:
  "pc_nondecreasing (sym (load fixup_text), org (load fixup_text)) (lines (load fixup_text))"
  by (simp add: fixup_text_def pass_eval lex_eval)

theorem two_pass_consistency_witness:
  "org (load fixup_text) = 0 \<and>
   pass1_loop (load fixup_text) = Inr (Map.empty(''start'' \<mapsto> 0, ''buf'' \<mapsto> 8), 12) \<and>
   pc_nondecreasing (sym (load fixup_text), org (load fixup_text)) (lines (load fixup_text)) \<and>
   (\<exists>a2. pass2 ((load fixup_text)\<lparr>sym := Map.empty(''start'' \<mapsto> 0, ''buf'' \<mapsto> 8)\<rparr>) = Inr a2 \<and>
         length (bytes a2) < 65536 \<and>
         unat (12 :: u16) = length (bytes a2) + unat (org a2) \<and>
         bytes a2 = [0x00, 0x10, 0x08, 0x00, 0x00, 0xA8, 0x00, 0x00, 0x07, 0x00, 0x00, 0x00])"
proof -
  let ?sy = "Map.empty(''start'' \<mapsto> 0 :: u16, ''buf'' \<mapsto> 8)"
  let ?a2 = "(load fixup_text)
            \<lparr>sym := ?sy,
             bytes := [0x00, 0x10, 0x08, 0x00, 0x00, 0xA8, 0x00, 0x00, 0x07, 0x00, 0x00, 0x00],
             fixups := [(2, ''buf''), (6, ''start''), (10, ''start'')]\<rparr>"
  have o: "org (load fixup_text) = 0" by (simp add: load_def)
  have s: "length (bytes ?a2) < 65536" by simp
  from two_pass_consistency [OF o fixup_text_pass1 fixup_text_pass2 fixup_text_nondecreasing s]
  have "unat (12 :: u16) = length (bytes ?a2) + unat (org ?a2)" by blast
  with o fixup_text_pass1 fixup_text_pass2 fixup_text_nondecreasing show ?thesis
    by simp
qed










lemma replicate_2: "replicate 2 x = [x, x]"
  by (simp add: numeral_2_eq_2)

lemma replicate_4: "replicate 4 x = [x, x, x, x]"
  by (simp add: numeral_eq_Suc)

text \<open>
  C8, as stated, fails. With a label on the second line, the label gets the first
  value (2) where the source with the second line alone gives it 0. With a second
  value beyond 16 bits (65538, kept as 2) after the first value 4, pass 2 has
  padded to 4 bytes where the second line alone pads to 2.
\<close>

theorem org_before_labelled_or_wide_org:
  "lines (load org_then_labelled_org_text) = [''.org 2'', ''y: .org 4''] \<and>
   lines (load labelled_org_text) = [''y: .org 4''] \<and>
   outcome (assemble org_then_labelled_org_text) = Inr ([0, 0, 0, 0], Map.empty(''y'' \<mapsto> 2)) \<and>
   outcome (assemble labelled_org_text) = Inr ([0, 0, 0, 0], Map.empty(''y'' \<mapsto> 0)) \<and>
   lines (load org_then_wide_org_text) = [''.org 4'', ''.org 65538''] \<and>
   lines (load wide_org_text) = [''.org 65538''] \<and>
   org_directive ''.org 4'' = Some 4 \<and> org_directive ''.org 65538'' = Some 65538 \<and>
   outcome (assemble org_then_wide_org_text) = Inr ([0, 0, 0, 0], Map.empty) \<and>
   outcome (assemble wide_org_text) = Inr ([0, 0], Map.empty)"
  by (simp add: org_then_labelled_org_text_def labelled_org_text_def org_then_wide_org_text_def
        wide_org_text_def outcome_def org_directive_def pass_eval lex_eval emit_eval replicate_2 replicate_4)

theorem org_twice_is_org_once_witness:
  "org (load []) = 0 \<and> org_directive ''.org 2'' = Some 2 \<and> org_directive ''.org 4'' = Some 4 \<and>
   (ucast (2 :: u32) :: u16) \<le> ucast (4 :: u32) \<and>
   outcome (bindE (pass1 ((load [])\<lparr>lines := [''x:''] @ [''.org 2'', ''.org 4''] @ [''y: nop'']\<rparr>)) pass2) =
   outcome (bindE (pass1 ((load [])\<lparr>lines := [''x:''] @ [''.org 4''] @ [''y: nop'']\<rparr>)) pass2) \<and>
   outcome (bindE (pass1 ((load [])\<lparr>lines := [''x:''] @ [''.org 4''] @ [''y: nop'']\<rparr>)) pass2) =
     Inr ([0, 0, 0, 0, 0, 0], Map.empty(''x'' \<mapsto> 0, ''y'' \<mapsto> 4)) \<and>
   pass2_line (org (load [])) (([1], []), 0) ''.org 4'' = Inr (([1] @ replicate (4 - 1) 0, []), 4) \<and>
   lines (load org_twice_text) = [''x:''] @ [''.org 2'', ''.org 4''] @ [''y: nop''] \<and>
   lines (load org_once_text) = [''x:''] @ [''.org 4''] @ [''y: nop''] \<and>
   outcome (assemble org_twice_text) = outcome (assemble org_once_text) \<and>
   outcome (assemble org_once_text) =
     Inr ([0, 0, 0, 0, 0, 0], Map.empty(''x'' \<mapsto> 0, ''y'' \<mapsto> 4))"
proof -
  have o: "org (load []) = 0" by (simp add: load_def)
  have a: "org_directive ''.org 2'' = Some 2" and b: "org_directive ''.org 4'' = Some 4"
    by (simp_all add: org_directive_def lex_eval)
  have le: "(ucast (2 :: u32) :: u16) \<le> ucast (4 :: u32)" by simp
  have e: "outcome (bindE (pass1 ((load [])\<lparr>lines := [''x:''] @ [''.org 4''] @ [''y: nop'']\<rparr>)) pass2) =
     Inr ([0, 0, 0, 0, 0, 0], Map.empty(''x'' \<mapsto> 0, ''y'' \<mapsto> 4))"
    by (simp add: outcome_def pass_eval lex_eval emit_eval replicate_4)
  have l2: "lines (load org_twice_text) = [''x:''] @ [''.org 2'', ''.org 4''] @ [''y: nop'']"
    by (simp add: org_twice_text_def load_def)
  have l1: "lines (load org_once_text) = [''x:''] @ [''.org 4''] @ [''y: nop'']"
    by (simp add: org_once_text_def load_def)
  have e1: "outcome (assemble org_once_text) =
     Inr ([0, 0, 0, 0, 0, 0], Map.empty(''x'' \<mapsto> 0, ''y'' \<mapsto> 4))"
    by (simp add: org_once_text_def outcome_def pass_eval lex_eval emit_eval replicate_4)
  note t = org_twice_is_org_once [OF o a b le, of "[''x:'']" "[''y: nop'']" "[1]" "[]" 0]
  from t [THEN conjunct2, THEN conjunct2, THEN spec, THEN spec, THEN mp, OF conjI, OF l2 l1]
  have 3: "outcome (assemble org_twice_text) = outcome (assemble org_once_text)" .
  from t [THEN conjunct1]
  have 1: "outcome (bindE (pass1 ((load [])\<lparr>lines := [''x:''] @ [''.org 2'', ''.org 4''] @ [''y: nop'']\<rparr>)) pass2) =
   outcome (bindE (pass1 ((load [])\<lparr>lines := [''x:''] @ [''.org 4''] @ [''y: nop'']\<rparr>)) pass2)" .
  from t [THEN conjunct2, THEN conjunct1]
  have 2: "pass2_line (org (load [])) (([1], []), 0) ''.org 4'' = Inr (([1] @ replicate (4 - 1) 0, []), 4)"
    by simp
  show ?thesis
    by (intro conjI; fact)
qed





end
